theory Spec2Isabelle
  imports Main "HOL-Library.Word" "HOL-Library.Sublist"
begin

section \<open>Data model\<close>

text \<open>
  The loader exists in four variants: \<^verbatim>\<open>index.js\<close> (CommonJS, fetch based), its ESM
  twin, \<^verbatim>\<open>node.js\<close> (CommonJS, file based, auto-loading) and a second copy of the node
  loader that differs only in passing an ignored argument to \<^verbatim>\<open>initInstance\<close>.
  Each variant owns two module-level variables: \<^verbatim>\<open>mod\<close>, the compiled module, and the
  variable \<^verbatim>\<open>wasm\<close> of the generated bindings, written through
  \<^verbatim>\<open>bindings.__wbg_set_wasm\<close> and read by every binding function.
\<close>

text \<open>
  Everything the loader asks of its environment (fetch, file reads, compilation,
  instantiation, start-up) is recorded in a trace of events, in the order in which it
  happens. Objects created by the host (modules, instances) are identified by the
  position, in that trace, of the operation that created them; this gives every object
  its own identity, as in JavaScript.
\<close>

type_synonym bytes = "8 word list"
type_synonym wasm_module = nat
type_synonym wasm_instance = nat

record response =
  ok :: bool
  arrayBuffer :: "string + bytes"

datatype host_op =
    OpFetch | OpCompileStreaming | OpArrayBuffer | OpCompile
  | OpReadFile | OpReadFileSync | OpModule | OpInstance | OpStart

text \<open>
  \<open>Error msg\<close> is a JavaScript \<^verbatim>\<open>new Error(msg)\<close> thrown by the loader's own code;
  \<open>HostError op msg\<close> is whatever the host operation \<open>op\<close> threw or rejected with.
\<close>

datatype error = Error string | HostError host_op string

text \<open>The value of the bindings' variable \<^verbatim>\<open>wasm\<close>: the guard proxy installed at module
  load, or the export table of an instance.\<close>

datatype exports = GuardProxy | InstanceExports wasm_instance

text \<open>\<open>Export i p\<close> stands for \<^verbatim>\<open>instance.exports[p]\<close> of instance \<open>i\<close>.\<close>

datatype jsval = Export wasm_instance string

text \<open>
  The operations of the host, as the loader performs them: \<^verbatim>\<open>fetch(moduleUrl)\<close>,
  \<^verbatim>\<open>WebAssembly.compileStreaming\<close>, \<^verbatim>\<open>response.arrayBuffer()\<close>, \<^verbatim>\<open>WebAssembly.compile\<close>,
  \<^verbatim>\<open>readFile\<close>, \<^verbatim>\<open>readFileSync\<close>, \<^verbatim>\<open>new WebAssembly.Module\<close>,
  \<^verbatim>\<open>new WebAssembly.Instance\<close> (with the instance it constructed, or \<open>None\<close> when it
  threw), \<^verbatim>\<open>bindings.__wbg_set_wasm(instance.exports)\<close> and
  \<^verbatim>\<open>instance.exports.__wbindgen_start()\<close>.
\<close>

datatype event =
    Fetch | CompileStreaming | ArrayBuffer | Compile
  | ReadFile | ReadFileSync | NewModule
  | NewInstance "wasm_instance option"
  | SetWasm wasm_instance
  | Start wasm_instance

record state =
  mod_cache :: "wasm_module option"
  wasm :: exports
  trace :: "event list"

text \<open>
  The host: what the environment answers. \<open>fetch_h h n\<close> is the outcome of the \<open>n\<close>-th
  call of \<^verbatim>\<open>fetch(moduleUrl)\<close> (\<open>Inl\<close> a rejection), likewise for the two file reads;
  the compilers answer \<open>None\<close> for success and \<open>Some msg\<close> for a rejection;
  \<open>Instance_h h i m\<close> is the outcome of the constructor call that would create
  instance \<open>i\<close> from module \<open>m\<close>, and \<open>start_h h i\<close> that of \<^verbatim>\<open>__wbindgen_start\<close> of
  instance \<open>i\<close>.
\<close>

record host =
  compileStreaming_is_function :: bool
  moduleUrl :: string
  fetch_h :: "nat \<Rightarrow> string + response"
  compileStreaming_h :: "string + response \<Rightarrow> string option"
  compile_h :: "bytes \<Rightarrow> string option"
  readFileSync_h :: "nat \<Rightarrow> string + bytes"
  readFile_h :: "nat \<Rightarrow> string + bytes"
  Module_h :: "bytes \<Rightarrow> string option"
  Instance_h :: "wasm_instance \<Rightarrow> wasm_module \<Rightarrow> string option"
  start_h :: "wasm_instance \<Rightarrow> string option"

text \<open>Loading the loader installs the guard proxy:
  \<^verbatim>\<open>bindings.__wbg_set_wasm(new Proxy({}, {get() {...}}))\<close>; \<^verbatim>\<open>mod\<close> is undefined.\<close>

definition initial :: state where
  "initial = \<lparr>mod_cache = None, wasm = GuardProxy, trace = []\<rparr>"

text \<open>\<open>log\<close> records operations; \<open>fresh s\<close> is the position of the next operation, which
  names the object it creates; \<open>calls e s\<close> counts the operations \<open>e\<close> performed so far,
  which is the index of the next one in the host's answers.\<close>

definition log :: "event list \<Rightarrow> state \<Rightarrow> state" where
  "log es s = s\<lparr>trace := trace s @ es\<rparr>"

definition fresh :: "state \<Rightarrow> nat" where
  "fresh s = length (trace s)"

definition calls :: "event \<Rightarrow> state \<Rightarrow> nat" where
  "calls e s = count_list (trace s) e"

section \<open>The guard proxy and the instantiation sequence\<close>

definition premature_use_message :: string where
  "premature_use_message =
     ''@matrix-org/matrix-sdk-crypto-wasm was used before it was initialized. Call `initAsync` first.''"

definition fetch_failed_message :: "host \<Rightarrow> string" where
  "fetch_failed_message h = ''Failed to fetch wasm module: '' @ moduleUrl h"

text \<open>\<^verbatim>\<open>new WebAssembly.Instance(mod, {...: bindings})\<close>; \<^verbatim>\<open>mod\<close> may be undefined.\<close>

definition Instance_new :: "host \<Rightarrow> wasm_module option \<Rightarrow> state \<Rightarrow> (error + wasm_instance) \<times> state" where
  "Instance_new h mo s =
     (case mo of
        None \<Rightarrow>
          (Inl (HostError OpInstance ''TypeError: argument 0 must be a WebAssembly.Module''),
           log [NewInstance None] s)
      | Some m \<Rightarrow>
          (case Instance_h h (fresh s) m of
             Some msg \<Rightarrow> (Inl (HostError OpInstance msg), log [NewInstance None] s)
           | None \<Rightarrow> (Inr (fresh s), log [NewInstance (Some (fresh s))] s)))"

text \<open>
  The three statements every variant ends its initialisation with:
  \<^verbatim>\<open>
    const instance = new WebAssembly.Instance(mod, {...});
    bindings.__wbg_set_wasm(instance.exports);
    instance.exports.__wbindgen_start();
  \<close>
\<close>

definition instantiate_and_start ::
    "host \<Rightarrow> wasm_module option \<Rightarrow> state \<Rightarrow> (error + wasm_instance) \<times> state" where
  "instantiate_and_start h mo s =
     (case Instance_new h mo s of
        (Inl e, s1) \<Rightarrow> (Inl e, s1)
      | (Inr i, s1) \<Rightarrow>
          (let s2 = log [SetWasm i] (s1\<lparr>wasm := InstanceExports i\<rparr>) in
           case start_h h i of
             Some msg \<Rightarrow> (Inl (HostError OpStart msg), log [Start i] s2)
           | None \<Rightarrow> (Inr i, log [Start i] s2)))"

section \<open>index.js: CommonJS, fetch based\<close>

definition loadModule_cjs :: "host \<Rightarrow> state \<Rightarrow> (error + wasm_module option) \<times> state" where
  "loadModule_cjs h s =
     (case mod_cache s of
        Some m \<Rightarrow> (Inr (Some m), s)
      | None \<Rightarrow>
          if compileStreaming_is_function h then
            (case compileStreaming_h h (fetch_h h (calls Fetch s)) of
               Some msg \<Rightarrow>
                 (Inl (HostError OpCompileStreaming msg), log [Fetch, CompileStreaming] s)
             | None \<Rightarrow>
                 (Inr None, (log [Fetch, CompileStreaming] s)\<lparr>mod_cache := Some (fresh s + 1)\<rparr>))
          else
            (case fetch_h h (calls Fetch s) of
               Inl msg \<Rightarrow> (Inl (HostError OpFetch msg), log [Fetch] s)
             | Inr resp \<Rightarrow>
                 if \<not> ok resp then (Inl (Error (fetch_failed_message h)), log [Fetch] s)
                 else
                   (case arrayBuffer resp of
                      Inl msg \<Rightarrow> (Inl (HostError OpArrayBuffer msg), log [Fetch, ArrayBuffer] s)
                    | Inr bs \<Rightarrow>
                        (case compile_h h bs of
                           Some msg \<Rightarrow>
                             (Inl (HostError OpCompile msg), log [Fetch, ArrayBuffer, Compile] s)
                         | None \<Rightarrow>
                             (Inr None,
                              (log [Fetch, ArrayBuffer, Compile] s)
                                \<lparr>mod_cache := Some (fresh s + 2)\<rparr>)))))"

definition initAsync_cjs :: "host \<Rightarrow> state \<Rightarrow> (error + unit) \<times> state" where
  "initAsync_cjs h s =
     (case loadModule_cjs h s of
        (Inl e, s1) \<Rightarrow> (Inl e, s1)
      | (Inr _, s1) \<Rightarrow>
          (case instantiate_and_start h (mod_cache s1) s1 of
             (Inl e, s2) \<Rightarrow> (Inl e, s2)
           | (Inr _, s2) \<Rightarrow> (Inr (), s2)))"

text \<open>A property read \<^verbatim>\<open>wasm[prop]\<close> by a binding function, in the fetch-based variants:
  the proxy's \<^verbatim>\<open>get\<close> handler throws; an export table answers.\<close>

definition wasm_get_fetch :: "state \<Rightarrow> string \<Rightarrow> error + jsval" where
  "wasm_get_fetch s prop =
     (case wasm s of
        GuardProxy \<Rightarrow> Inl (Error premature_use_message)
      | InstanceExports i \<Rightarrow> Inr (Export i prop))"

section \<open>The ESM twin of index.js\<close>

text \<open>The ESM loader differs in that \<^verbatim>\<open>loadModule\<close> returns \<^verbatim>\<open>mod\<close> on every path and
  \<^verbatim>\<open>initAsync\<close> instantiates the module it was returned (a local \<^verbatim>\<open>const mod\<close>).\<close>

definition loadModule_esm :: "host \<Rightarrow> state \<Rightarrow> (error + wasm_module) \<times> state" where
  "loadModule_esm h s =
     (case mod_cache s of
        Some m \<Rightarrow> (Inr m, s)
      | None \<Rightarrow>
          if compileStreaming_is_function h then
            (case compileStreaming_h h (fetch_h h (calls Fetch s)) of
               Some msg \<Rightarrow>
                 (Inl (HostError OpCompileStreaming msg), log [Fetch, CompileStreaming] s)
             | None \<Rightarrow>
                 (Inr (fresh s + 1),
                  (log [Fetch, CompileStreaming] s)\<lparr>mod_cache := Some (fresh s + 1)\<rparr>))
          else
            (case fetch_h h (calls Fetch s) of
               Inl msg \<Rightarrow> (Inl (HostError OpFetch msg), log [Fetch] s)
             | Inr resp \<Rightarrow>
                 if \<not> ok resp then (Inl (Error (fetch_failed_message h)), log [Fetch] s)
                 else
                   (case arrayBuffer resp of
                      Inl msg \<Rightarrow> (Inl (HostError OpArrayBuffer msg), log [Fetch, ArrayBuffer] s)
                    | Inr bs \<Rightarrow>
                        (case compile_h h bs of
                           Some msg \<Rightarrow>
                             (Inl (HostError OpCompile msg), log [Fetch, ArrayBuffer, Compile] s)
                         | None \<Rightarrow>
                             (Inr (fresh s + 2),
                              (log [Fetch, ArrayBuffer, Compile] s)
                                \<lparr>mod_cache := Some (fresh s + 2)\<rparr>)))))"

definition initAsync_esm :: "host \<Rightarrow> state \<Rightarrow> (error + unit) \<times> state" where
  "initAsync_esm h s =
     (case loadModule_esm h s of
        (Inl e, s1) \<Rightarrow> (Inl e, s1)
      | (Inr m, s1) \<Rightarrow>
          (case instantiate_and_start h (Some m) s1 of
             (Inl e, s2) \<Rightarrow> (Inl e, s2)
           | (Inr _, s2) \<Rightarrow> (Inr (), s2)))"

section \<open>node.js: CommonJS, file based, auto-loading\<close>

text \<open>The second copy of the node loader calls \<^verbatim>\<open>initInstance(mod)\<close> where this one calls
  \<^verbatim>\<open>initInstance()\<close>; the function takes no parameter, so both are the code below.\<close>

definition loadModuleSync :: "host \<Rightarrow> state \<Rightarrow> (error + wasm_module option) \<times> state" where
  "loadModuleSync h s =
     (case mod_cache s of
        Some m \<Rightarrow> (Inr (Some m), s)
      | None \<Rightarrow>
          (case readFileSync_h h (calls ReadFileSync s) of
             Inl msg \<Rightarrow> (Inl (HostError OpReadFileSync msg), log [ReadFileSync] s)
           | Inr bs \<Rightarrow>
               (case Module_h h bs of
                  Some msg \<Rightarrow> (Inl (HostError OpModule msg), log [ReadFileSync, NewModule] s)
                | None \<Rightarrow>
                    (Inr None,
                     (log [ReadFileSync, NewModule] s)\<lparr>mod_cache := Some (fresh s + 1)\<rparr>))))"

definition loadModule_node :: "host \<Rightarrow> state \<Rightarrow> (error + wasm_module option) \<times> state" where
  "loadModule_node h s =
     (case mod_cache s of
        Some m \<Rightarrow> (Inr (Some m), s)
      | None \<Rightarrow>
          (case readFile_h h (calls ReadFile s) of
             Inl msg \<Rightarrow> (Inl (HostError OpReadFile msg), log [ReadFile] s)
           | Inr bs \<Rightarrow>
               (case compile_h h bs of
                  Some msg \<Rightarrow> (Inl (HostError OpCompile msg), log [ReadFile, Compile] s)
                | None \<Rightarrow>
                    (Inr None,
                     (log [ReadFile, Compile] s)\<lparr>mod_cache := Some (fresh s + 1)\<rparr>))))"

definition initInstance :: "host \<Rightarrow> state \<Rightarrow> (error + wasm_instance) \<times> state" where
  "initInstance h s = instantiate_and_start h (mod_cache s) s"

definition initAsync_node :: "host \<Rightarrow> state \<Rightarrow> (error + unit) \<times> state" where
  "initAsync_node h s =
     (case loadModule_node h s of
        (Inl e, s1) \<Rightarrow> (Inl e, s1)
      | (Inr _, s1) \<Rightarrow>
          (case initInstance h s1 of
             (Inl e, s2) \<Rightarrow> (Inl e, s2)
           | (Inr _, s2) \<Rightarrow> (Inr (), s2)))"

text \<open>The \<^verbatim>\<open>get\<close> handler of the node proxy:
  \<^verbatim>\<open>loadModuleSync(); return initInstance()[prop];\<close>\<close>

definition proxy_get_node :: "host \<Rightarrow> state \<Rightarrow> string \<Rightarrow> (error + jsval) \<times> state" where
  "proxy_get_node h s prop =
     (case loadModuleSync h s of
        (Inl e, s1) \<Rightarrow> (Inl e, s1)
      | (Inr _, s1) \<Rightarrow>
          (case initInstance h s1 of
             (Inl e, s2) \<Rightarrow> (Inl e, s2)
           | (Inr i, s2) \<Rightarrow> (Inr (Export i prop), s2)))"

definition wasm_get_node :: "host \<Rightarrow> state \<Rightarrow> string \<Rightarrow> (error + jsval) \<times> state" where
  "wasm_get_node h s prop =
     (case wasm s of
        GuardProxy \<Rightarrow> proxy_get_node h s prop
      | InstanceExports i \<Rightarrow> (Inr (Export i prop), s))"

section \<open>The variants side by side, and sequential executions\<close>

text \<open>The loaders differ in how they obtain the module and agree in everything else; the
  functions below select by variant. The second copy of the node loader is \<open>Node\<close> too.\<close>

datatype variant = CJS | ESM | Node

text \<open>\<^verbatim>\<open>loadModule\<close> of each variant, with the ESM result read as a possibly undefined value.\<close>

definition loadModule :: "variant \<Rightarrow> host \<Rightarrow> state \<Rightarrow> (error + wasm_module option) \<times> state" where
  "loadModule v h s =
     (case v of
        CJS \<Rightarrow> loadModule_cjs h s
      | ESM \<Rightarrow> (case loadModule_esm h s of
                  (Inl e, s1) \<Rightarrow> (Inl e, s1)
                | (Inr m, s1) \<Rightarrow> (Inr (Some m), s1))
      | Node \<Rightarrow> loadModule_node h s)"

definition initAsync :: "variant \<Rightarrow> host \<Rightarrow> state \<Rightarrow> (error + unit) \<times> state" where
  "initAsync v h s =
     (case v of CJS \<Rightarrow> initAsync_cjs h s | ESM \<Rightarrow> initAsync_esm h s | Node \<Rightarrow> initAsync_node h s)"

definition wasm_get :: "variant \<Rightarrow> host \<Rightarrow> state \<Rightarrow> string \<Rightarrow> (error + jsval) \<times> state" where
  "wasm_get v h s prop = (if v = Node then wasm_get_node h s prop else (wasm_get_fetch s prop, s))"

text \<open>Sequential executions: each \<^verbatim>\<open>initAsync\<close> call is awaited before the next operation.\<close>

datatype operation = InitAsync | GetProp string

fun exec :: "variant \<Rightarrow> host \<Rightarrow> operation \<Rightarrow> state \<Rightarrow> state" where
  "exec v h InitAsync s = snd (initAsync v h s)"
| "exec v h (GetProp p) s = snd (wasm_get v h s p)"

fun exec_all :: "variant \<Rightarrow> host \<Rightarrow> operation list \<Rightarrow> state \<Rightarrow> state" where
  "exec_all v h [] s = s"
| "exec_all v h (x # xs) s = exec_all v h xs (exec v h x s)"

section \<open>Interleaved executions\<close>

text \<open>
  An \<^verbatim>\<open>async\<close> function runs without interruption from one \<^verbatim>\<open>await\<close> to the next. A call
  of \<^verbatim>\<open>initAsync\<close> in flight is a task: the \<^verbatim>\<open>await\<close> it is suspended at, together with
  the outcome the awaited promise will deliver. \<open>call\<close> runs a fresh call up to its first
  \<^verbatim>\<open>await\<close>; \<open>resume\<close> runs a suspended task up to its next one. The
  \<^verbatim>\<open>await loadModule()\<close> of \<^verbatim>\<open>initAsync\<close> is a suspension point of its own, also when
  the module was cached. Property reads by the bindings are synchronous and so happen
  between such segments.
\<close>

datatype task =
    AwaitCompileStreaming "string + wasm_module"
  | AwaitFetch "string + response"
  | AwaitArrayBuffer "string + bytes"
  | AwaitReadFile "string + bytes"
  | AwaitCompile "string + wasm_module"
  | AwaitLoadModule "wasm_module option"
  | Done "error option"

definition compiled :: "string option \<Rightarrow> wasm_module \<Rightarrow> string + wasm_module" where
  "compiled r m = (case r of Some msg \<Rightarrow> Inl msg | None \<Rightarrow> Inr m)"

definition call :: "variant \<Rightarrow> host \<Rightarrow> state \<Rightarrow> task \<times> state" where
  "call v h s =
     (case mod_cache s of
        Some m \<Rightarrow> (AwaitLoadModule (Some m), s)
      | None \<Rightarrow>
          if v = Node then (AwaitReadFile (readFile_h h (calls ReadFile s)), log [ReadFile] s)
          else if compileStreaming_is_function h then
            (AwaitCompileStreaming
               (compiled (compileStreaming_h h (fetch_h h (calls Fetch s))) (fresh s + 1)),
             log [Fetch, CompileStreaming] s)
          else (AwaitFetch (fetch_h h (calls Fetch s)), log [Fetch] s))"

text \<open>When \<^verbatim>\<open>loadModule\<close> has assigned \<^verbatim>\<open>mod\<close>, it returns it in the ESM loader and
  \<^verbatim>\<open>undefined\<close> in the others.\<close>

definition returned :: "variant \<Rightarrow> wasm_module \<Rightarrow> wasm_module option" where
  "returned v m = (if v = ESM then Some m else None)"

fun resume :: "variant \<Rightarrow> host \<Rightarrow> task \<Rightarrow> state \<Rightarrow> task \<times> state" where
  "resume v h (AwaitCompileStreaming (Inl msg)) s =
     (Done (Some (HostError OpCompileStreaming msg)), s)"
| "resume v h (AwaitCompileStreaming (Inr m)) s =
     (AwaitLoadModule (returned v m), s\<lparr>mod_cache := Some m\<rparr>)"
| "resume v h (AwaitFetch (Inl msg)) s = (Done (Some (HostError OpFetch msg)), s)"
| "resume v h (AwaitFetch (Inr resp)) s =
     (if \<not> ok resp then (Done (Some (Error (fetch_failed_message h))), s)
      else (AwaitArrayBuffer (arrayBuffer resp), log [ArrayBuffer] s))"
| "resume v h (AwaitArrayBuffer (Inl msg)) s = (Done (Some (HostError OpArrayBuffer msg)), s)"
| "resume v h (AwaitArrayBuffer (Inr bs)) s =
     (AwaitCompile (compiled (compile_h h bs) (fresh s)), log [Compile] s)"
| "resume v h (AwaitReadFile (Inl msg)) s = (Done (Some (HostError OpReadFile msg)), s)"
| "resume v h (AwaitReadFile (Inr bs)) s =
     (AwaitCompile (compiled (compile_h h bs) (fresh s)), log [Compile] s)"
| "resume v h (AwaitCompile (Inl msg)) s = (Done (Some (HostError OpCompile msg)), s)"
| "resume v h (AwaitCompile (Inr m)) s =
     (AwaitLoadModule (returned v m), s\<lparr>mod_cache := Some m\<rparr>)"
| "resume v h (AwaitLoadModule r) s =
     (case instantiate_and_start h (if v = ESM then r else mod_cache s) s of
        (Inl e, s') \<Rightarrow> (Done (Some e), s')
      | (Inr _, s') \<Rightarrow> (Done None, s'))"
| "resume v h (Done r) s = (Done r, s)"

text \<open>What the embedding application does: call \<^verbatim>\<open>initAsync\<close>, let the host resume the
  \<open>k\<close>-th call, or call a binding function that reads a property of \<^verbatim>\<open>wasm\<close>.\<close>

datatype action = Call | Resume nat | Get string

record config =
  st :: state
  tasks :: "task list"
  results :: "(error + jsval) list"

definition start_config :: config where
  "start_config = \<lparr>st = initial, tasks = [], results = []\<rparr>"

fun step :: "variant \<Rightarrow> host \<Rightarrow> action \<Rightarrow> config \<Rightarrow> config" where
  "step v h Call c =
     (case call v h (st c) of (t, s') \<Rightarrow> c\<lparr>st := s', tasks := tasks c @ [t]\<rparr>)"
| "step v h (Resume k) c =
     (if k < length (tasks c)
      then (case resume v h (tasks c ! k) (st c) of
              (t, s') \<Rightarrow> c\<lparr>st := s', tasks := (tasks c)[k := t]\<rparr>)
      else c)"
| "step v h (Get prop) c =
     (case wasm_get v h (st c) prop of (r, s') \<Rightarrow> c\<lparr>st := s', results := results c @ [r]\<rparr>)"

fun run :: "variant \<Rightarrow> host \<Rightarrow> action list \<Rightarrow> config \<Rightarrow> config" where
  "run v h [] c = c"
| "run v h (a # as) c = run v h as (step v h a c)"

text \<open>A call of \<^verbatim>\<open>initAsync\<close> that runs alone: resumed until it has settled. Four
  resumptions suffice on every path.\<close>

definition resume_pair :: "variant \<Rightarrow> host \<Rightarrow> task \<times> state \<Rightarrow> task \<times> state" where
  "resume_pair v h ts = resume v h (fst ts) (snd ts)"

definition run_alone :: "variant \<Rightarrow> host \<Rightarrow> state \<Rightarrow> task \<times> state" where
  "run_alone v h s = resume_pair v h (resume_pair v h (resume_pair v h (resume_pair v h (call v h s))))"

definition outcome :: "error + unit \<Rightarrow> task" where
  "outcome r = Done (case r of Inl e \<Rightarrow> Some e | Inr u \<Rightarrow> None)"

definition finish :: "(error + wasm_instance) \<times> state \<Rightarrow> task \<times> state" where
  "finish x = (case x of (Inl e, s) \<Rightarrow> (Done (Some e), s) | (Inr i, s) \<Rightarrow> (Done None, s))"

text \<open>A sequential execution as an interleaved one: every call is resumed until it has
  settled before the next operation starts; \<open>n\<close> is the number of calls made before.\<close>

fun schedule_of :: "nat \<Rightarrow> operation list \<Rightarrow> action list" where
  "schedule_of n [] = []"
| "schedule_of n (InitAsync # xs) =
     [Call, Resume n, Resume n, Resume n, Resume n] @ schedule_of (Suc n) xs"
| "schedule_of n (GetProp p # xs) = Get p # schedule_of n xs"

section \<open>Observations on a trace\<close>

text \<open>Counting in a trace: instances constructed, start-up invocations, compilations
  (streaming, buffered or synchronous), fetches and file reads of the binary module, and
  calls of the \<^verbatim>\<open>WebAssembly.Instance\<close> constructor, successful or not.\<close>

fun is_instance :: "event \<Rightarrow> bool" where
  "is_instance (NewInstance (Some i)) = True"
| "is_instance e = False"

fun is_start :: "event \<Rightarrow> bool" where
  "is_start (Start i) = True"
| "is_start e = False"

fun is_setwasm :: "event \<Rightarrow> bool" where
  "is_setwasm (SetWasm i) = True"
| "is_setwasm e = False"

fun is_compile :: "event \<Rightarrow> bool" where
  "is_compile CompileStreaming = True"
| "is_compile Compile = True"
| "is_compile NewModule = True"
| "is_compile e = False"

fun is_resource_read :: "event \<Rightarrow> bool" where
  "is_resource_read Fetch = True"
| "is_resource_read ReadFile = True"
| "is_resource_read ReadFileSync = True"
| "is_resource_read e = False"

fun is_instantiation :: "event \<Rightarrow> bool" where
  "is_instantiation (NewInstance r) = True"
| "is_instantiation e = False"

definition instances_created :: "state \<Rightarrow> nat" where
  "instances_created s = length (filter is_instance (trace s))"

definition start_invocations :: "state \<Rightarrow> nat" where
  "start_invocations s = length (filter is_start (trace s))"

definition compilations :: "state \<Rightarrow> nat" where
  "compilations s = length (filter is_compile (trace s))"

definition resource_reads :: "state \<Rightarrow> nat" where
  "resource_reads s = length (filter is_resource_read (trace s))"

definition instantiations :: "state \<Rightarrow> nat" where
  "instantiations s = length (filter is_instantiation (trace s))"

text \<open>A trace in which every construction of an instance \<open>i\<close> is immediately followed by
  the rebinding of the slot to the exports of \<open>i\<close> and by the start-up of \<open>i\<close>, and in
  which rebinding and start-up occur nowhere else.\<close>

fun init_atomic :: "event list \<Rightarrow> bool" where
  "init_atomic [] = True"
| "init_atomic (NewInstance (Some i) # SetWasm j # Start k # es) =
     (i = j \<and> j = k \<and> init_atomic es)"
| "init_atomic (e # es) =
     (\<not> is_instance e \<and> \<not> is_setwasm e \<and> \<not> is_start e \<and> init_atomic es)"

fun is_done :: "task \<Rightarrow> bool" where
  "is_done (Done r) = True"
| "is_done t = False"

text \<open>The number of \<^verbatim>\<open>initAsync\<close> calls that have settled.\<close>

definition finished :: "task list \<Rightarrow> nat" where
  "finished ts = length (filter is_done ts)"

text \<open>The number of \<^verbatim>\<open>initAsync\<close> calls that have resolved.\<close>

definition resolved :: "task list \<Rightarrow> nat" where
  "resolved ts = length (filter (\<lambda>t. t = Done None) ts)"

text \<open>A task that has fetched or read but not yet compiled.\<close>

fun may_compile :: "task \<Rightarrow> bool" where
  "may_compile (AwaitFetch r) = True"
| "may_compile (AwaitArrayBuffer r) = True"
| "may_compile (AwaitReadFile r) = True"
| "may_compile t = False"

text \<open>The exports the slot holds after a trace: those of the instance constructed last.\<close>

definition latest :: "event list \<Rightarrow> exports" where
  "latest tr =
     (case rev (filter is_instance tr) of
        NewInstance (Some i) # es \<Rightarrow> InstanceExports i
      | _ \<Rightarrow> GuardProxy)"

section \<open>Predicates of the proofs\<close>

text \<open>The state after instance \<open>i\<close> has been constructed, the slot rebound to its exports
  and its start-up invoked.\<close>

definition rebound :: "wasm_instance \<Rightarrow> state \<Rightarrow> state" where
  "rebound i s = (log [NewInstance (Some i), SetWasm i, Start i] s)\<lparr>wasm := InstanceExports i\<rparr>"

text \<open>An atomic step either leaves the slot alone and performs none of the three
  operations of the instantiation sequence (\<open>plain_step\<close>), or ends with one complete
  sequence for a fresh instance (\<open>bind_step\<close>).\<close>

definition plain :: "event list \<Rightarrow> bool" where
  "plain es = list_all (\<lambda>e. \<not> is_instance e \<and> \<not> is_setwasm e \<and> \<not> is_start e) es"

definition plain_step :: "state \<Rightarrow> state \<Rightarrow> bool" where
  "plain_step s s' = (\<exists>es. plain es \<and> trace s' = trace s @ es \<and> wasm s' = wasm s)"

definition bind_step :: "state \<Rightarrow> state \<Rightarrow> bool" where
  "bind_step s s' =
     (\<exists>es i. plain es \<and> i = length (trace s @ es) \<and>
        trace s' = trace s @ es @ [NewInstance (Some i), SetWasm i, Start i] \<and>
        wasm s' = InstanceExports i)"

text \<open>Start-up has been invoked as often as instances have been constructed, and the slot
  holds the guard proxy exactly as long as no instance has been constructed.\<close>

definition slot_inv :: "state \<Rightarrow> bool" where
  "slot_inv s =
     (start_invocations s = instances_created s \<and>
      (wasm s = GuardProxy) = (instances_created s = 0))"

text \<open>The trace consists of complete instantiation sequences, and a bound slot belongs
  to an instance that has been constructed and started.\<close>

definition order_inv :: "state \<Rightarrow> bool" where
  "order_inv s =
     (init_atomic (trace s) \<and>
      (\<forall>i. wasm s = InstanceExports i \<longrightarrow>
         NewInstance (Some i) \<in> set (trace s) \<and> Start i \<in> set (trace s)))"

text \<open>Instances are constructed by calls of \<^verbatim>\<open>initAsync\<close> that have settled and, in the
  node variant, once by the proxy.\<close>

definition auto_loaded :: "variant \<Rightarrow> state \<Rightarrow> nat" where
  "auto_loaded v s = (if v = Node \<and> wasm s \<noteq> GuardProxy then 1 else 0)"

definition bound_inv :: "variant \<Rightarrow> config \<Rightarrow> bool" where
  "bound_inv v c = (instances_created (st c) \<le> finished (tasks c) + auto_loaded v (st c))"

text \<open>As long as no instance has been constructed, every read made so far has thrown the
  premature-use error.\<close>

definition reads_inv :: "config \<Rightarrow> bool" where
  "reads_inv c =
     (slot_inv (st c) \<and>
      (instances_created (st c) = 0 \<longrightarrow>
         list_all (\<lambda>r. r = Inl (Error premature_use_message)) (results c)))"

text \<open>In the fetch-based variants, when start-up never throws, an instance has been
  constructed only by a call that has resolved.\<close>

definition resolved_inv :: "config \<Rightarrow> bool" where
  "resolved_inv c = (instances_created (st c) \<le> resolved (tasks c))"

definition latest_inv :: "state \<Rightarrow> bool" where
  "latest_inv s = (wasm s = latest (trace s))"

text \<open>Every call reads at most once and compiles at most once, every call that has settled
  has called the constructor at most once, and every call that has resolved has
  constructed an instance; a property read does at most one of each.\<close>

definition work_inv :: "config \<Rightarrow> bool" where
  "work_inv c =
     (resource_reads (st c) \<le> length (tasks c) + length (results c) \<and>
      compilations (st c) + length (filter may_compile (tasks c)) \<le>
        length (tasks c) + length (results c) \<and>
      instantiations (st c) \<le> finished (tasks c) + length (results c) \<and>
      resolved (tasks c) \<le> instances_created (st c))"

text \<open>The state that holds module \<open>m\<close> and that neither compiled nor read since \<open>s\<close>.\<close>

definition cache_kept :: "wasm_module \<Rightarrow> state \<Rightarrow> state \<Rightarrow> bool" where
  "cache_kept m s s' =
     (mod_cache s' = Some m \<and> compilations s' = compilations s \<and> resource_reads s' = resource_reads s)"

text \<open>The bindings satisfy the imports of every module, and start-up never throws.\<close>

definition links :: "host \<Rightarrow> bool" where
  "links h = (\<forall>i m. Instance_h h i m = None \<and> start_h h i = None)"

section \<open>Hosts and executions used as examples\<close>

definition wasm_bytes :: bytes where
  "wasm_bytes = [0x00, 0x61, 0x73, 0x6D, 0x01, 0x00, 0x00, 0x00]"

definition response_200 :: response where
  "response_200 = \<lparr>ok = True, arrayBuffer = Inr wasm_bytes\<rparr>"

definition response_404 :: response where
  "response_404 = \<lparr>ok = False, arrayBuffer = Inr []\<rparr>"

text \<open>A host on which everything succeeds; \<open>streaming\<close> says whether it has
  \<^verbatim>\<open>WebAssembly.compileStreaming\<close>.\<close>

definition good_host :: "bool \<Rightarrow> host" where
  "good_host streaming =
     \<lparr>compileStreaming_is_function = streaming,
      moduleUrl = ''https://example.org/pkg/matrix_sdk_crypto_wasm_bg.wasm'',
      fetch_h = (\<lambda>n. Inr response_200),
      compileStreaming_h = (\<lambda>r. None),
      compile_h = (\<lambda>bs. None),
      readFileSync_h = (\<lambda>n. Inr wasm_bytes),
      readFile_h = (\<lambda>n. Inr wasm_bytes),
      Module_h = (\<lambda>bs. None),
      Instance_h = (\<lambda>i m. None),
      start_h = (\<lambda>i. None)\<rparr>"

text \<open>A host without streaming compilation whose server answers 404.\<close>

definition host_404 :: host where
  "host_404 = (good_host False)\<lparr>fetch_h := (\<lambda>n. Inr response_404)\<rparr>"

text \<open>A host with streaming compilation whose server answers 404; its
  \<^verbatim>\<open>compileStreaming\<close> rejects a response that is not ok, as the WebAssembly Web API
  prescribes, with a message of its own.\<close>

definition streaming_404 :: host where
  "streaming_404 =
     (good_host True)
       \<lparr>fetch_h := (\<lambda>n. Inr response_404),
        compileStreaming_h :=
          (\<lambda>r. case r of
                  Inl msg \<Rightarrow> Some msg
                | Inr resp \<Rightarrow>
                    if ok resp then None else Some ''TypeError: HTTP status code is not ok'')\<rparr>"

text \<open>A host with streaming compilation whose server sends the module with the wrong
  content type: \<^verbatim>\<open>compileStreaming\<close> rejects, while the bytes themselves are fine.\<close>

definition wrong_mime_host :: "bool \<Rightarrow> host" where
  "wrong_mime_host streaming =
     (good_host streaming)
       \<lparr>compileStreaming_h := (\<lambda>r. Some ''TypeError: Incorrect response MIME type'')\<rparr>"


text \<open>A host on which the bindings never satisfy the module's imports.\<close>

definition unlinkable_host :: host where
  "unlinkable_host =
     (good_host True)\<lparr>Instance_h := (\<lambda>i m. Some ''LinkError: import object field is not a Function'')\<rparr>"

text \<open>A host on which start-up throws.\<close>

definition failing_start_host :: host where
  "failing_start_host =
     (good_host True)\<lparr>start_h := (\<lambda>i. Some ''RuntimeError: unreachable executed'')\<rparr>"

text \<open>Two calls of \<^verbatim>\<open>initAsync\<close> issued back to back and resumed in turn until both have
  settled; property reads before, during and after a call that fails; a sequential mix
  of reads and calls; three property reads.\<close>

definition two_calls_interleaved :: "action list" where
  "two_calls_interleaved =
     [Call, Call, Resume 0, Resume 1, Resume 0, Resume 1, Resume 0, Resume 1, Resume 0, Resume 1]"

definition reads_around_failed_call :: "action list" where
  "reads_around_failed_call = [Get ''a'', Call, Get ''b'', Resume 0, Get ''c'']"

definition mixed_use :: "operation list" where
  "mixed_use = [GetProp ''a'', InitAsync, GetProp ''b'', InitAsync]"

definition three_reads :: "string list" where
  "three_reads = [''olmmachine_new'', ''__wbindgen_malloc'', ''olmmachine_userId'']"

text \<open>The node loader after one and after two successful calls of \<^verbatim>\<open>initAsync\<close>.\<close>

definition once_initialized :: state where
  "once_initialized =
     \<lparr>mod_cache = Some 1, wasm = InstanceExports 2,
      trace = [ReadFile, Compile, NewInstance (Some 2), SetWasm 2, Start 2]\<rparr>"

definition twice_initialized :: state where
  "twice_initialized =
     \<lparr>mod_cache = Some 1, wasm = InstanceExports 5,
      trace = [ReadFile, Compile, NewInstance (Some 2), SetWasm 2, Start 2,
               NewInstance (Some 5), SetWasm 5, Start 5]\<rparr>"

section \<open>Basic facts\<close>

lemma trace_log [simp]: "trace (log es s) = trace s @ es"
  by (simp add: log_def)

lemma mod_cache_log [simp]: "mod_cache (log es s) = mod_cache s"
  by (simp add: log_def)

lemma wasm_log [simp]: "wasm (log es s) = wasm s"
  by (simp add: log_def)

lemma fresh_log [simp]: "fresh (log es s) = fresh s + length es"
  by (simp add: fresh_def)

lemma log_log: "log es' (log es s) = log (es @ es') s"
  by (simp add: log_def)

lemma reads_log [simp]: "resource_reads (log es s) = resource_reads s + length (filter is_resource_read es)"
  by (simp add: resource_reads_def)

lemma compilations_log [simp]:
  "compilations (log es s) = compilations s + length (filter is_compile es)"
  by (simp add: compilations_def)

lemma instantiations_log [simp]:
  "instantiations (log es s) = instantiations s + length (filter is_instantiation es)"
  by (simp add: instantiations_def)

lemma instances_created_log [simp]:
  "instances_created (log es s) = instances_created s + length (filter is_instance es)"
  by (simp add: instances_created_def)

lemma start_invocations_log [simp]:
  "start_invocations (log es s) = start_invocations s + length (filter is_start es)"
  by (simp add: start_invocations_def)

lemma counts_mod_cache [simp]:
  "resource_reads (s\<lparr>mod_cache := m\<rparr>) = resource_reads s"
  "compilations (s\<lparr>mod_cache := m\<rparr>) = compilations s"
  "instantiations (s\<lparr>mod_cache := m\<rparr>) = instantiations s"
  "instances_created (s\<lparr>mod_cache := m\<rparr>) = instances_created s"
  "start_invocations (s\<lparr>mod_cache := m\<rparr>) = start_invocations s"
  "fresh (s\<lparr>mod_cache := m\<rparr>) = fresh s"
  by (simp_all add: resource_reads_def compilations_def instantiations_def instances_created_def
        start_invocations_def fresh_def)

lemma wasm_rebound [simp]: "wasm (rebound i s) = InstanceExports i"
  by (simp add: rebound_def)

lemma mod_cache_rebound [simp]: "mod_cache (rebound i s) = mod_cache s"
  by (simp add: rebound_def)

lemma counts_rebound [simp]:
  "resource_reads (rebound i s) = resource_reads s"
  "compilations (rebound i s) = compilations s"
  "instantiations (rebound i s) = instantiations s + 1"
  "instances_created (rebound i s) = instances_created s + 1"
  "start_invocations (rebound i s) = start_invocations s + 1"
  "fresh (rebound i s) = fresh s + 3"
  by (simp_all add: rebound_def resource_reads_def compilations_def instantiations_def
        instances_created_def start_invocations_def fresh_def)

section \<open>The instantiation sequence\<close>

lemma instantiate_and_start_None:
  "instantiate_and_start h None s =
     (Inl (HostError OpInstance ''TypeError: argument 0 must be a WebAssembly.Module''),
      log [NewInstance None] s)"
  by (simp add: instantiate_and_start_def Instance_new_def)

lemma instantiate_and_start_link_error:
  "Instance_h h (fresh s) m = Some msg \<Longrightarrow>
   instantiate_and_start h (Some m) s = (Inl (HostError OpInstance msg), log [NewInstance None] s)"
  by (simp add: instantiate_and_start_def Instance_new_def)

lemma instantiate_and_start_ok:
  "Instance_h h (fresh s) m = None \<Longrightarrow>
   instantiate_and_start h (Some m) s =
     ((case start_h h (fresh s) of Some msg \<Rightarrow> Inl (HostError OpStart msg) | None \<Rightarrow> Inr (fresh s)),
      rebound (fresh s) s)"
  by (simp add: instantiate_and_start_def Instance_new_def rebound_def log_def split: option.splits)

lemma instantiate_and_start_cases:
  "(\<exists>e. instantiate_and_start h mo s = (Inl e, log [NewInstance None] s)) \<or>
   (\<exists>r. instantiate_and_start h mo s = (r, rebound (fresh s) s))"
proof (cases mo)
  case None
  then show ?thesis by (simp add: instantiate_and_start_None)
next
  case (Some m)
  then show ?thesis
    by (cases "Instance_h h (fresh s) m")
       (simp_all add: instantiate_and_start_link_error instantiate_and_start_ok)
qed

lemma instantiate_and_start_Inr:
  "instantiate_and_start h mo s = (Inr i, s') \<Longrightarrow> i = fresh s \<and> s' = rebound (fresh s) s"
proof (cases mo)
  case None
  assume "instantiate_and_start h mo s = (Inr i, s')"
  with None show ?thesis by (simp add: instantiate_and_start_None)
next
  case (Some m)
  assume a: "instantiate_and_start h mo s = (Inr i, s')"
  show ?thesis
  proof (cases "Instance_h h (fresh s) m")
    case None
    from a Some instantiate_and_start_ok [OF None] show ?thesis
      by (auto split: option.splits)
  next
    case (Some msg)
    from a \<open>mo = Some m\<close> instantiate_and_start_link_error [OF Some] show ?thesis by simp
  qed
qed

lemma instantiate_and_start_links:
  "links h \<Longrightarrow> instantiate_and_start h (Some m) s = (Inr (fresh s), rebound (fresh s) s)"
  by (simp add: links_def instantiate_and_start_ok)

lemma instantiate_and_start_kept:
  "instantiate_and_start h mo s = (r, s') \<Longrightarrow>
   mod_cache s' = mod_cache s \<and> compilations s' = compilations s \<and> resource_reads s' = resource_reads s"
  using instantiate_and_start_cases [of h mo s]
  by (auto simp: rebound_def compilations_def resource_reads_def)

section \<open>The loaders and the sequential initialiser\<close>

lemma loadModule_cached: "mod_cache s = Some m \<Longrightarrow> loadModule v h s = (Inr (Some m), s)"
  by (cases v)
     (simp_all add: loadModule_def loadModule_cjs_def loadModule_esm_def loadModule_node_def)





lemma loadModule_cjs_loaded:
  "mod_cache s = None \<Longrightarrow> loadModule_cjs h s = (Inr r, s1) \<Longrightarrow>
   r = None \<and> (\<exists>m. mod_cache s1 = Some m) \<and> wasm s1 = wasm s \<and> resource_reads s1 = resource_reads s + 1 \<and>
   compilations s1 = compilations s + 1 \<and> instantiations s1 = instantiations s"
  by (auto simp: loadModule_cjs_def split: option.splits if_splits sum.splits)

lemma loadModule_esm_loaded:
  "mod_cache s = None \<Longrightarrow> loadModule_esm h s = (Inr m, s1) \<Longrightarrow>
   mod_cache s1 = Some m \<and> wasm s1 = wasm s \<and> resource_reads s1 = resource_reads s + 1 \<and>
   compilations s1 = compilations s + 1 \<and> instantiations s1 = instantiations s"
  by (auto simp: loadModule_esm_def split: option.splits if_splits sum.splits)

lemma loadModule_node_loaded:
  "mod_cache s = None \<Longrightarrow> loadModule_node h s = (Inr r, s1) \<Longrightarrow>
   r = None \<and> (\<exists>m. mod_cache s1 = Some m) \<and> wasm s1 = wasm s \<and> resource_reads s1 = resource_reads s + 1 \<and>
   compilations s1 = compilations s + 1 \<and> instantiations s1 = instantiations s"
  by (auto simp: loadModule_node_def split: option.splits if_splits sum.splits)

text \<open>What a successful load from an empty cache leaves behind.\<close>

lemma loadModule_loaded:
  "mod_cache s = None \<Longrightarrow> loadModule v h s = (Inr r, s1) \<Longrightarrow>
   (\<exists>m. mod_cache s1 = Some m \<and> (v = ESM \<longrightarrow> r = Some m)) \<and> wasm s1 = wasm s \<and>
   resource_reads s1 = resource_reads s + 1 \<and> compilations s1 = compilations s + 1 \<and>
   instantiations s1 = instantiations s"
  by (cases v)
     (auto simp: loadModule_def split: prod.splits sum.splits
           dest: loadModule_cjs_loaded loadModule_esm_loaded loadModule_node_loaded)

lemma loadModule_cjs_quiet:
  "loadModule_cjs h s = (r, s1) \<Longrightarrow>
   wasm s1 = wasm s \<and> instantiations s1 = instantiations s \<and>
   instances_created s1 = instances_created s \<and> start_invocations s1 = start_invocations s"
  by (auto simp: loadModule_cjs_def split: option.splits if_splits sum.splits)

lemma loadModule_esm_quiet:
  "loadModule_esm h s = (r, s1) \<Longrightarrow>
   wasm s1 = wasm s \<and> instantiations s1 = instantiations s \<and>
   instances_created s1 = instances_created s \<and> start_invocations s1 = start_invocations s \<and>
   (\<forall>m. r = Inr m \<longrightarrow> mod_cache s1 = Some m)"
  by (auto simp: loadModule_esm_def split: option.splits if_splits sum.splits)

lemma loadModule_node_quiet:
  "loadModule_node h s = (r, s1) \<Longrightarrow>
   wasm s1 = wasm s \<and> instantiations s1 = instantiations s \<and>
   instances_created s1 = instances_created s \<and> start_invocations s1 = start_invocations s"
  by (auto simp: loadModule_node_def split: option.splits if_splits sum.splits)

text \<open>Loading touches neither the slot nor any instance; the ESM loader returns what the
  cache holds.\<close>

lemma loadModule_quiet:
  "loadModule v h s = (r, s1) \<Longrightarrow>
   wasm s1 = wasm s \<and> instantiations s1 = instantiations s \<and>
   instances_created s1 = instances_created s \<and> start_invocations s1 = start_invocations s \<and>
   (\<forall>x. v = ESM \<and> r = Inr x \<longrightarrow> x = mod_cache s1)"
  by (cases v)
     (auto simp: loadModule_def split: prod.splits sum.splits
           dest: loadModule_cjs_quiet loadModule_esm_quiet loadModule_node_quiet)


lemma loadModuleSync_cached: "mod_cache s = Some m \<Longrightarrow> loadModuleSync h s = (Inr (Some m), s)"
  by (simp add: loadModuleSync_def)


lemma loadModuleSync_loaded:
  "mod_cache s = None \<Longrightarrow> loadModuleSync h s = (Inr r, s1) \<Longrightarrow>
   (\<exists>m. mod_cache s1 = Some m) \<and> wasm s1 = wasm s \<and> resource_reads s1 = resource_reads s + 1 \<and>
   compilations s1 = compilations s + 1 \<and> instantiations s1 = instantiations s"
  by (auto simp: loadModuleSync_def split: option.splits if_splits sum.splits)

lemma loadModuleSync_quiet:
  "loadModuleSync h s = (r, s1) \<Longrightarrow>
   wasm s1 = wasm s \<and> instantiations s1 = instantiations s \<and>
   instances_created s1 = instances_created s \<and> start_invocations s1 = start_invocations s"
  by (auto simp: loadModuleSync_def split: option.splits if_splits sum.splits)


lemma initAsync_unfold:
  "initAsync v h s =
     (case loadModule v h s of
        (Inl e, s1) \<Rightarrow> (Inl e, s1)
      | (Inr r, s1) \<Rightarrow>
          (case instantiate_and_start h (if v = ESM then r else mod_cache s1) s1 of
             (Inl e, s2) \<Rightarrow> (Inl e, s2)
           | (Inr i, s2) \<Rightarrow> (Inr (), s2)))"
  by (cases v)
     (simp_all add: initAsync_def initAsync_cjs_def initAsync_esm_def initAsync_node_def
        initInstance_def loadModule_def split: prod.splits sum.splits)


lemma initAsync_resolved:
  assumes "initAsync v h s = (Inr (), s')"
  shows "\<exists>r s1. loadModule v h s = (Inr r, s1) \<and> s' = rebound (fresh s1) s1"
proof -
  obtain x s1 where l: "loadModule v h s = (x, s1)" by (cases "loadModule v h s")
  show ?thesis
  proof (cases x)
    case (Inl e)
    with l assms show ?thesis by (simp add: initAsync_unfold)
  next
    case (Inr r)
    obtain y s2 where i: "instantiate_and_start h (if v = ESM then r else mod_cache s1) s1 = (y, s2)"
      by (cases "instantiate_and_start h (if v = ESM then r else mod_cache s1) s1")
    with l Inr assms obtain j where "y = Inr j" and "s2 = s'"
      by (cases y) (simp_all add: initAsync_unfold)
    with i have "instantiate_and_start h (if v = ESM then r else mod_cache s1) s1 = (Inr j, s')"
      by simp
    from instantiate_and_start_Inr [OF this] have "s' = rebound (fresh s1) s1" by simp
    with l Inr show ?thesis by simp
  qed
qed


lemma wasm_get_fetch_variant:
  "v \<noteq> Node \<Longrightarrow> wasm_get v h s p = (wasm_get_fetch s p, s)"
  by (simp add: wasm_get_def)

lemma wasm_get_node_after_load:
  assumes "loadModuleSync h s = (Inr r, s1)" and "mod_cache s = None" and "links h"
    and "wasm s = GuardProxy"
  shows "wasm_get_node h s p = (Inr (Export (fresh s1) p), rebound (fresh s1) s1)"
proof -
  from loadModuleSync_loaded [OF assms(2) assms(1)]
  obtain m where m: "mod_cache s1 = Some m" by blast
  with assms(1,4) instantiate_and_start_links [OF assms(3), of m s1] show ?thesis
    by (simp add: wasm_get_node_def proxy_get_node_def initInstance_def)
qed


section \<open>The shape of an atomic step\<close>

lemma plain_step_refl [simp]: "plain_step s s"
  unfolding plain_step_def by (rule exI [of _ "[]"]) (simp add: plain_def)

lemma plain_step_log: "plain es \<Longrightarrow> plain_step s (log es s)"
  unfolding plain_step_def by (rule exI [of _ es]) simp

lemma plain_step_log_mod: "plain es \<Longrightarrow> plain_step s ((log es s)\<lparr>mod_cache := m\<rparr>)"
  unfolding plain_step_def by (rule exI [of _ es]) simp

lemma plain_step_mod [simp]: "plain_step s (s\<lparr>mod_cache := m\<rparr>)"
  unfolding plain_step_def by (rule exI [of _ "[]"]) (simp add: plain_def)

lemma plain_step_trans: "plain_step s s1 \<Longrightarrow> plain_step s1 s2 \<Longrightarrow> plain_step s s2"
  unfolding plain_step_def plain_def
  apply clarify
  subgoal for es es'
    apply (rule exI [of _ "es @ es'"])
    apply simp
    done
  done

lemma plain_bind_step: "plain_step s s1 \<Longrightarrow> bind_step s1 s2 \<Longrightarrow> bind_step s s2"
  unfolding plain_step_def bind_step_def plain_def
  apply clarify
  subgoal for es es'
    apply (rule exI [of _ "es @ es'"])
    apply simp
    done
  done

lemma bind_step_rebound: "bind_step s (rebound (fresh s) s)"
  unfolding bind_step_def
  by (rule exI [of _ "[]"]) (simp add: rebound_def plain_def fresh_def)

lemma instantiate_and_start_step:
  "instantiate_and_start h mo s = (r, s') \<Longrightarrow> plain_step s s' \<or> bind_step s s'"
  using instantiate_and_start_cases [of h mo s]
  by (auto simp: plain_step_log plain_def bind_step_rebound)

lemma call_step: "call v h s = (t, s') \<Longrightarrow> plain_step s s' \<and> (\<forall>r. t \<noteq> Done r)"
  by (auto simp: call_def plain_step_log plain_def split: option.splits if_splits)

lemma resume_plain:
  "\<forall>r. t \<noteq> AwaitLoadModule r \<Longrightarrow> resume v h t s = (t', s') \<Longrightarrow> plain_step s s'"
  by (cases "(v, h, t, s)" rule: resume.cases)
     (auto simp: plain_step_log plain_def split: if_splits)

lemma resume_load:
  "resume v h (AwaitLoadModule r) s = (t', s') \<Longrightarrow>
   (\<exists>e. t' = Done e) \<and> (plain_step s s' \<or> bind_step s s')"
  by (auto split: prod.splits sum.splits dest: instantiate_and_start_step)

lemma resume_step: "resume v h t s = (t', s') \<Longrightarrow> plain_step s s' \<or> bind_step s s'"
  by (cases "\<exists>r. t = AwaitLoadModule r") (auto dest: resume_load resume_plain)

lemma resume_Done: "resume v h t s = (t', s') \<Longrightarrow> t = Done r \<Longrightarrow> t' = t \<and> s' = s"
  by auto

lemma loadModuleSync_step: "loadModuleSync h s = (r, s') \<Longrightarrow> plain_step s s'"
  by (auto simp: loadModuleSync_def plain_step_log plain_step_log_mod plain_def
           split: option.splits sum.splits)

lemma proxy_get_node_step:
  "proxy_get_node h s prop = (r, s') \<Longrightarrow> plain_step s s' \<or> bind_step s s'"
proof -
  assume a: "proxy_get_node h s prop = (r, s')"
  obtain r1 s1 where l: "loadModuleSync h s = (r1, s1)" by (cases "loadModuleSync h s")
  then have p: "plain_step s s1" by (rule loadModuleSync_step)
  show ?thesis
  proof (cases r1)
    case (Inl e)
    with a l p show ?thesis by (simp add: proxy_get_node_def)
  next
    case (Inr m)
    obtain r2 s2 where i: "instantiate_and_start h (mod_cache s1) s1 = (r2, s2)"
      by (cases "instantiate_and_start h (mod_cache s1) s1")
    with a l Inr have "s' = s2"
      by (auto simp: proxy_get_node_def initInstance_def split: sum.splits)
    with instantiate_and_start_step [OF i] p show ?thesis
      by (auto intro: plain_step_trans plain_bind_step)
  qed
qed

lemma wasm_get_step: "wasm_get v h s prop = (r, s') \<Longrightarrow> plain_step s s' \<or> bind_step s s'"
  by (auto simp: wasm_get_def wasm_get_node_def split: if_splits exports.splits
           dest: proxy_get_node_step)

lemma step_shape: "plain_step (st c) (st (step v h a c)) \<or> bind_step (st c) (st (step v h a c))"
proof (cases a)
  case Call
  obtain t s' where "call v h (st c) = (t, s')" by (cases "call v h (st c)")
  with Call call_step [of v h "st c" t s'] show ?thesis by simp
next
  case (Resume k)
  show ?thesis
  proof (cases "k < length (tasks c)")
    case True
    obtain t s' where "resume v h (tasks c ! k) (st c) = (t, s')"
      by (cases "resume v h (tasks c ! k) (st c)")
    with Resume True resume_step [of v h "tasks c ! k" "st c" t s'] show ?thesis by simp
  next
    case False
    with Resume show ?thesis by simp
  qed
next
  case (Get p)
  obtain r s' where "wasm_get v h (st c) p = (r, s')" by (cases "wasm_get v h (st c) p")
  with Get wasm_get_step [of v h "st c" p r s'] show ?thesis by simp
qed

lemma run_invariant:
  assumes "\<And>a c. P c \<Longrightarrow> P (step v h a c)" and "P c"
  shows "P (run v h sch c)"
  using assms(2) by (induction sch arbitrary: c) (simp_all add: assms(1))

lemma run_state_invariant:
  assumes "\<And>s s'. Q s \<Longrightarrow> plain_step s s' \<or> bind_step s s' \<Longrightarrow> Q s'" and "Q (st c)"
  shows "Q (st (run v h sch c))"
proof -
  have "\<And>a c. Q (st c) \<Longrightarrow> Q (st (step v h a c))"
    using assms(1) step_shape by blast
  then show ?thesis
    using assms(2) by (rule run_invariant [where P = "\<lambda>c. Q (st c)"])
qed

section \<open>A call that runs alone does what the sequential functions say\<close>

lemma resume_AwaitLoadModule:
  "resume v h (AwaitLoadModule r) s =
     finish (instantiate_and_start h (if v = ESM then r else mod_cache s) s)"
  by (simp add: finish_def split: prod.splits sum.splits)

lemma resume_pair_finish: "resume_pair v h (finish x) = finish x"
  by (simp add: finish_def resume_pair_def split: prod.splits sum.splits)

lemma outcome_finish:
  "(outcome (fst (case x of (Inl e, s) \<Rightarrow> (Inl e, s) | (Inr i, s) \<Rightarrow> (Inr (), s))),
    snd (case x of (Inl e, s) \<Rightarrow> (Inl e, s) | (Inr i, s) \<Rightarrow> (Inr (), s))) = finish x"
  by (simp add: finish_def outcome_def split: prod.splits sum.splits)

lemma resume_pair_simps:
  "resume_pair v h (t, s) = resume v h t s"
  by (simp add: resume_pair_def)

lemma outcome_Inl: "outcome (Inl e) = Done (Some e)"
  by (simp add: outcome_def)

lemma run_alone_cached:
  "mod_cache s = Some m \<Longrightarrow>
   run_alone v h s = (outcome (fst (initAsync v h s)), snd (initAsync v h s))"
  by (cases v)
     (simp_all add: run_alone_def call_def initAsync_unfold loadModule_cached
        resume_pair_simps resume_AwaitLoadModule resume_pair_finish outcome_finish
        del: resume.simps(11))

lemma run_alone_cjs:
  "mod_cache s = None \<Longrightarrow>
   run_alone CJS h s = (outcome (fst (initAsync_cjs h s)), snd (initAsync_cjs h s))"
  by (simp add: run_alone_def call_def initAsync_cjs_def loadModule_cjs_def compiled_def
        returned_def log_log resume_pair_simps resume_AwaitLoadModule resume_pair_finish
        outcome_finish outcome_Inl
        del: resume.simps(11) split: sum.splits option.splits)

lemma run_alone_esm:
  "mod_cache s = None \<Longrightarrow>
   run_alone ESM h s = (outcome (fst (initAsync_esm h s)), snd (initAsync_esm h s))"
  by (simp add: run_alone_def call_def initAsync_esm_def loadModule_esm_def compiled_def
        returned_def log_log resume_pair_simps resume_AwaitLoadModule resume_pair_finish
        outcome_finish outcome_Inl
        del: resume.simps(11) split: sum.splits option.splits)

lemma run_alone_node:
  "mod_cache s = None \<Longrightarrow>
   run_alone Node h s = (outcome (fst (initAsync_node h s)), snd (initAsync_node h s))"
  by (simp add: run_alone_def call_def initAsync_node_def initInstance_def
        loadModule_node_def compiled_def
        returned_def log_log resume_pair_simps resume_AwaitLoadModule resume_pair_finish
        outcome_finish outcome_Inl
        del: resume.simps(11) split: sum.splits option.splits)

text \<open>The functions \<open>initAsync_cjs\<close>, \<open>initAsync_esm\<close> and \<open>initAsync_node\<close> say what a
  call does when nothing else runs before it settles.\<close>

lemma run_alone_initAsync:
  "run_alone v h s = (outcome (fst (initAsync v h s)), snd (initAsync v h s))"
proof (cases "mod_cache s")
  case None
  then show ?thesis
    by (cases v) (simp_all add: initAsync_def run_alone_cjs run_alone_esm run_alone_node)
next
  case (Some m)
  then show ?thesis by (rule run_alone_cached)
qed

lemma run_Call_Resumes:
  "run v h [Call, Resume (length (tasks c)), Resume (length (tasks c)),
            Resume (length (tasks c)), Resume (length (tasks c))] c =
     c\<lparr>st := snd (run_alone v h (st c)), tasks := tasks c @ [fst (run_alone v h (st c))]\<rparr>"
proof -
  let ?n = "length (tasks c)"
  define c0 where "c0 = step v h Call c"
  have 0: "c0 = c\<lparr>st := snd (call v h (st c)), tasks := tasks c @ [fst (call v h (st c))]\<rparr>"
    by (simp add: c0_def split: prod.splits)
  have step: "step v h (Resume ?n) (c\<lparr>st := snd x, tasks := tasks c @ [fst x]\<rparr>) =
              c\<lparr>st := snd (resume_pair v h x), tasks := tasks c @ [fst (resume_pair v h x)]\<rparr>" for x
    by (simp add: resume_pair_def split: prod.splits)
  show ?thesis
    by (simp only: run.simps c0_def [symmetric]) (simp only: 0 step run_alone_def)
qed

text \<open>Run without interleaving, the machine does what the sequential functions say.\<close>

lemma run_sequential:
  "run v h [Call, Resume (length (tasks c)), Resume (length (tasks c)),
            Resume (length (tasks c)), Resume (length (tasks c))] c =
     c\<lparr>st := snd (initAsync v h (st c)),
       tasks := tasks c @ [outcome (fst (initAsync v h (st c)))]\<rparr>"
  by (simp only: run_Call_Resumes run_alone_initAsync fst_conv snd_conv)

lemma run_append: "run v h (as @ bs) c = run v h bs (run v h as c)"
  by (induction as arbitrary: c) simp_all

lemma run_Get: "st (run v h [Get p] c) = snd (wasm_get v h (st c) p) \<and>
                tasks (run v h [Get p] c) = tasks c"
  by (simp split: prod.splits)

text \<open>The sequential executions are among the interleaved ones.\<close>

lemma exec_all_run:
  "st (run v h (schedule_of (length (tasks c)) xs) c) = exec_all v h xs (st c)"
proof (induction xs arbitrary: c)
  case Nil
  then show ?case by simp
next
  case (Cons x xs)
  show ?case
  proof (cases x)
    case InitAsync
    let ?n = "length (tasks c)"
    let ?c = "c\<lparr>st := snd (initAsync v h (st c)),
                  tasks := tasks c @ [outcome (fst (initAsync v h (st c)))]\<rparr>"
    have "run v h (schedule_of ?n (x # xs)) c =
            run v h (schedule_of (Suc ?n) xs) (run v h [Call, Resume ?n, Resume ?n, Resume ?n, Resume ?n] c)"
      unfolding InitAsync schedule_of.simps by (rule run_append)
    also have "\<dots> = run v h (schedule_of (length (tasks ?c)) xs) ?c"
      by (simp only: run_sequential) simp
    finally show ?thesis
      using Cons.IH [of ?c] by (simp add: InitAsync)
  next
    case (GetProp p)
    let ?c = "step v h (Get p) c"
    have t: "length (tasks ?c) = length (tasks c)" by (simp split: prod.splits)
    have s: "st ?c = snd (wasm_get v h (st c) p)" by (simp split: prod.splits)
    have "run v h (schedule_of (length (tasks c)) (x # xs)) c =
            run v h (schedule_of (length (tasks ?c)) xs) ?c"
      unfolding GetProp t by (simp only: schedule_of.simps run.simps)
    then show ?thesis
      using Cons.IH [of ?c] s by (simp add: GetProp)
  qed
qed

section \<open>Invariants of interleaved executions\<close>

lemma init_atomic_Cons:
  "\<not> is_instance e \<Longrightarrow>
   init_atomic (e # es) = (\<not> is_setwasm e \<and> \<not> is_start e \<and> init_atomic es)"
  by (cases e rule: is_instance.cases) auto

lemma init_atomic_append:
  "init_atomic xs \<Longrightarrow> init_atomic ys \<Longrightarrow> init_atomic (xs @ ys)"
  by (induction xs rule: init_atomic.induct) (auto simp: init_atomic_Cons)

lemma init_atomic_plain: "plain es \<Longrightarrow> init_atomic es"
  by (induction es rule: init_atomic.induct) (auto simp: plain_def)

lemma plain_filters:
  "plain es \<Longrightarrow> filter is_instance es = [] \<and> filter is_start es = []"
  by (induction es) (auto simp: plain_def)

lemma plain_no_start: "plain es \<Longrightarrow> Start i \<notin> set es \<and> NewInstance (Some i) \<notin> set es"
  by (induction es) (auto simp: plain_def)

lemma counts_plain_step:
  "plain_step s s' \<Longrightarrow>
   instances_created s' = instances_created s \<and> start_invocations s' = start_invocations s"
  by (auto simp: plain_step_def instances_created_def start_invocations_def plain_filters)

lemma counts_bind_step:
  "bind_step s s' \<Longrightarrow>
   instances_created s' = instances_created s + 1 \<and>
   start_invocations s' = start_invocations s + 1"
  by (auto simp: bind_step_def instances_created_def start_invocations_def plain_filters)

lemma wasm_bind_step: "bind_step s s' \<Longrightarrow> wasm s' \<noteq> GuardProxy"
  by (auto simp: bind_step_def)

lemma wasm_plain_step: "plain_step s s' \<Longrightarrow> wasm s' = wasm s"
  by (auto simp: plain_step_def)

lemma instances_step:
  "plain_step s s' \<or> bind_step s s' \<Longrightarrow>
   instances_created s \<le> instances_created s' \<and> instances_created s' \<le> instances_created s + 1"
  using counts_plain_step [of s s'] counts_bind_step [of s s'] by auto

lemma slot_inv_step: "slot_inv s \<Longrightarrow> plain_step s s' \<or> bind_step s s' \<Longrightarrow> slot_inv s'"
  unfolding slot_inv_def
  using counts_plain_step [of s s'] counts_bind_step [of s s'] wasm_bind_step [of s s']
    wasm_plain_step [of s s']
  by auto

lemma slot_inv_initial: "slot_inv initial"
  by (simp add: slot_inv_def initial_def instances_created_def start_invocations_def)

lemma slot_inv_run: "slot_inv (st (run v h sch start_config))"
  by (rule run_state_invariant [where Q = slot_inv])
     (auto intro: slot_inv_step simp: start_config_def slot_inv_initial)

lemma order_inv_step: "order_inv s \<Longrightarrow> plain_step s s' \<or> bind_step s s' \<Longrightarrow> order_inv s'"
  unfolding order_inv_def plain_step_def bind_step_def
  by (auto simp: init_atomic_append init_atomic_plain)

lemma order_inv_initial: "order_inv initial"
  by (simp add: order_inv_def initial_def)

lemma order_inv_run: "order_inv (st (run v h sch start_config))"
  by (rule run_state_invariant [where Q = order_inv])
     (auto intro: order_inv_step simp: start_config_def order_inv_initial)

lemma filter_update_length:
  "k < length ts \<Longrightarrow>
   length (filter P (ts[k := t])) + (if P (ts ! k) then 1 else 0) =
   length (filter P ts) + (if P t then 1 else 0)"
proof (induction ts arbitrary: k)
  case Nil
  then show ?case by simp
next
  case (Cons a ts)
  show ?case
  proof (cases k)
    case 0
    then show ?thesis by simp
  next
    case (Suc j)
    with Cons.prems have "j < length ts" by simp
    from Cons.IH [OF this] Suc show ?thesis by simp
  qed
qed

lemma finished_append: "finished (ts @ [t]) = finished ts + (if is_done t then 1 else 0)"
  by (simp add: finished_def)

lemma finished_update:
  "k < length ts \<Longrightarrow>
   finished (ts[k := t]) + (if is_done (ts ! k) then 1 else 0) =
   finished ts + (if is_done t then 1 else 0)"
proof (induction ts arbitrary: k)
  case Nil
  then show ?case by simp
next
  case (Cons a ts)
  show ?case
  proof (cases k)
    case 0
    then show ?thesis by (simp add: finished_def)
  next
    case (Suc j)
    with Cons.prems have "j < length ts" by simp
    from Cons.IH [OF this] Suc show ?thesis by (simp add: finished_def)
  qed
qed

lemma finished_le: "finished ts \<le> length ts"
  by (simp add: finished_def)

lemma auto_loaded_step:
  "plain_step s s' \<or> bind_step s s' \<Longrightarrow> auto_loaded v s \<le> auto_loaded v s'"
  by (auto simp: auto_loaded_def plain_step_def bind_step_def)

lemma bound_inv_Call: "bound_inv v c \<Longrightarrow> bound_inv v (step v h Call c)"
proof -
  assume a: "bound_inv v c"
  obtain t s' where c: "call v h (st c) = (t, s')" by (cases "call v h (st c)")
  from call_step [OF c] have p: "plain_step (st c) s'" by simp
  from a c counts_plain_step [OF p] wasm_plain_step [OF p] show ?thesis
    by (simp add: bound_inv_def finished_append auto_loaded_def)
qed

lemma bound_inv_Resume: "bound_inv v c \<Longrightarrow> bound_inv v (step v h (Resume k) c)"
proof (cases "k < length (tasks c)")
  case False
  assume "bound_inv v c"
  with False show ?thesis by simp
next
  case True
  assume a: "bound_inv v c"
  obtain t s' where r: "resume v h (tasks c ! k) (st c) = (t, s')"
    by (cases "resume v h (tasks c ! k) (st c)")
  have s: "step v h (Resume k) c = c\<lparr>st := s', tasks := (tasks c)[k := t]\<rparr>"
    using True r by simp
  show ?thesis
  proof (cases "\<exists>x. tasks c ! k = AwaitLoadModule x")
    case True
    then obtain x where x: "tasks c ! k = AwaitLoadModule x" by blast
    from r x resume_load [of v h x "st c" t s']
    have d: "is_done t" and g: "plain_step (st c) s' \<or> bind_step (st c) s'" by auto
    from finished_update [OF \<open>k < length (tasks c)\<close>, of t] x d
    have "finished ((tasks c)[k := t]) = finished (tasks c) + 1" by simp
    with a instances_step [OF g] auto_loaded_step [OF g, of v] show ?thesis
      unfolding s bound_inv_def by simp
  next
    case False
    then have "\<forall>x. tasks c ! k \<noteq> AwaitLoadModule x" by blast
    from resume_plain [OF this r] have p: "plain_step (st c) s'" .
    show ?thesis
    proof (cases "is_done (tasks c ! k)")
      case True
      then obtain e where "tasks c ! k = Done e" by (cases "tasks c ! k") auto
      with r have "t = tasks c ! k" "s' = st c" by auto
      with a show ?thesis unfolding s bound_inv_def by simp
    next
      case False
      with finished_update [OF \<open>k < length (tasks c)\<close>, of t]
      have "finished (tasks c) \<le> finished ((tasks c)[k := t])" by (simp split: if_splits)
      with a counts_plain_step [OF p] wasm_plain_step [OF p] show ?thesis
        unfolding s bound_inv_def by (simp add: auto_loaded_def)
    qed
  qed
qed

lemma bound_inv_Get: "bound_inv v c \<Longrightarrow> bound_inv v (step v h (Get p) c)"
proof -
  assume a: "bound_inv v c"
  obtain r s' where g: "wasm_get v h (st c) p = (r, s')" by (cases "wasm_get v h (st c) p")
  show ?thesis
  proof (cases "v = Node \<and> wasm (st c) = GuardProxy")
    case False
    with g have "s' = st c"
      by (auto simp: wasm_get_def wasm_get_node_def split: if_splits exports.splits)
    with a g show ?thesis by (simp add: bound_inv_def)
  next
    case True
    from wasm_get_step [OF g] show ?thesis
    proof
      assume p: "plain_step (st c) s'"
      with a g counts_plain_step [OF p] wasm_plain_step [OF p] show ?thesis
        by (simp add: bound_inv_def auto_loaded_def)
    next
      assume b: "bind_step (st c) s'"
      with a g True counts_bind_step [OF b] wasm_bind_step [OF b] show ?thesis
        by (simp add: bound_inv_def auto_loaded_def)
    qed
  qed
qed

lemma bound_inv_step: "bound_inv v c \<Longrightarrow> bound_inv v (step v h a c)"
  by (cases a) (simp_all only: bound_inv_Call bound_inv_Resume bound_inv_Get)

lemma bound_inv_run: "bound_inv v (run v h sch start_config)"
proof (rule run_invariant [where P = "bound_inv v"])
  show "bound_inv v start_config"
    by (simp add: bound_inv_def start_config_def initial_def instances_created_def)
qed (rule bound_inv_step)

lemma length_tasks_step:
  "length (tasks (step v h a c)) = length (tasks c) + (if a = Call then 1 else 0)"
  by (cases a) (auto split: prod.splits)

lemma length_tasks_run:
  "length (tasks (run v h sch c)) = length (tasks c) + count_list sch Call"
  by (induction sch arbitrary: c) (simp_all add: length_tasks_step)

lemma reads_inv_step:
  assumes "v \<noteq> Node" and "reads_inv c"
  shows "reads_inv (step v h a c)"
proof -
  have sh: "plain_step (st c) (st (step v h a c)) \<or> bind_step (st c) (st (step v h a c))"
    by (rule step_shape)
  from assms(2) have si: "slot_inv (st (step v h a c))"
    using slot_inv_step [OF _ sh] by (simp add: reads_inv_def)
  have mono: "instances_created (st c) \<le> instances_created (st (step v h a c))"
    using instances_step [OF sh] by simp
  show ?thesis
  proof (cases a)
    case Call
    then have "results (step v h a c) = results c" by (simp split: prod.splits)
    with assms(2) si mono show ?thesis by (simp add: reads_inv_def)
  next
    case (Resume k)
    then have "results (step v h a c) = results c" by (simp split: prod.splits)
    with assms(2) si mono show ?thesis by (simp add: reads_inv_def)
  next
    case (Get p)
    with assms(1) have r: "results (step v h a c) = results c @ [wasm_get_fetch (st c) p]"
      and s: "st (step v h a c) = st c"
      by (simp_all add: wasm_get_fetch_variant)
    from assms(2) have "instances_created (st c) = 0 \<longrightarrow> wasm (st c) = GuardProxy"
      by (simp add: reads_inv_def slot_inv_def)
    then have "instances_created (st c) = 0 \<longrightarrow>
        wasm_get_fetch (st c) p = Inl (Error premature_use_message)"
      by (simp add: wasm_get_fetch_def)
    with assms(2) si r s show ?thesis by (simp add: reads_inv_def)
  qed
qed

lemma reads_inv_run: "v \<noteq> Node \<Longrightarrow> reads_inv (run v h sch start_config)"
proof (rule run_invariant [where P = reads_inv])
  show "reads_inv start_config"
    by (simp add: reads_inv_def start_config_def slot_inv_initial)
qed (rule reads_inv_step)

lemma resolved_append: "resolved (ts @ [t]) = resolved ts + (if t = Done None then 1 else 0)"
  by (simp add: resolved_def)

lemma resolved_update:
  "k < length ts \<Longrightarrow>
   resolved (ts[k := t]) + (if ts ! k = Done None then 1 else 0) =
   resolved ts + (if t = Done None then 1 else 0)"
  unfolding resolved_def by (rule filter_update_length)

lemma resolved_0: "resolved ts = 0 \<longleftrightarrow> (\<forall>t \<in> set ts. t \<noteq> Done None)"
  by (auto simp: resolved_def filter_empty_conv)

lemma resume_plain_unresolved:
  "\<forall>r. t \<noteq> AwaitLoadModule r \<Longrightarrow> t \<noteq> Done None \<Longrightarrow> resume v h t s = (t', s') \<Longrightarrow>
   t' \<noteq> Done None"
  by (cases "(v, h, t, s)" rule: resume.cases) (auto split: if_splits)

lemma resume_load_resolved:
  assumes "\<forall>i. start_h h i = None" and "resume v h (AwaitLoadModule r) s = (t', s')"
  shows "(t' = Done None \<and> bind_step s s') \<or> (t' \<noteq> Done None \<and> plain_step s s')"
proof -
  let ?mo = "if v = ESM then r else mod_cache s"
  show ?thesis
  proof (cases ?mo)
    case None
    with assms(2) instantiate_and_start_None [of h s] show ?thesis
      by (auto simp: plain_step_log plain_def)
  next
    case (Some m)
    show ?thesis
    proof (cases "Instance_h h (fresh s) m")
      case (Some msg)
      with assms(2) \<open>?mo = Some m\<close> instantiate_and_start_link_error [OF Some]
      show ?thesis by (auto simp: plain_step_log plain_def)
    next
      case None
      with assms \<open>?mo = Some m\<close> instantiate_and_start_ok [OF None]
      show ?thesis by (auto simp: bind_step_rebound)
    qed
  qed
qed

lemma resolved_inv_step:
  assumes "v \<noteq> Node" and "\<forall>i. start_h h i = None" and "resolved_inv c"
  shows "resolved_inv (step v h a c)"
proof (cases a)
  case Call
  obtain t s' where c: "call v h (st c) = (t, s')" by (cases "call v h (st c)")
  from call_step [OF c] have p: "plain_step (st c) s'" by simp
  from assms(3) c counts_plain_step [OF p] show ?thesis
    unfolding Call resolved_inv_def by (simp add: resolved_append)
next
  case (Get p)
  with assms(1,3) show ?thesis by (simp add: wasm_get_fetch_variant resolved_inv_def)
next
  case (Resume k)
  show ?thesis
  proof (cases "k < length (tasks c)")
    case False
    with assms(3) Resume show ?thesis by simp
  next
    case True
    obtain t s' where r: "resume v h (tasks c ! k) (st c) = (t, s')"
      by (cases "resume v h (tasks c ! k) (st c)")
    have s: "step v h a c = c\<lparr>st := s', tasks := (tasks c)[k := t]\<rparr>"
      using True r Resume by simp
    show ?thesis
    proof (cases "tasks c ! k = Done None")
      case d: True
      with r have "t = tasks c ! k" "s' = st c" by auto
      with assms(3) show ?thesis unfolding s resolved_inv_def by simp
    next
      case d: False
      show ?thesis
      proof (cases "\<exists>x. tasks c ! k = AwaitLoadModule x")
        case True
        then obtain x where x: "tasks c ! k = AwaitLoadModule x" by blast
        from resume_load_resolved [OF assms(2) r [unfolded x]]
        show ?thesis
        proof
          assume b: "t = Done None \<and> bind_step (st c) s'"
          with resolved_update [OF \<open>k < length (tasks c)\<close>, of t] d
          have "resolved ((tasks c)[k := t]) = resolved (tasks c) + 1" by simp
          with assms(3) b counts_bind_step [of "st c" s'] show ?thesis
            unfolding s resolved_inv_def by simp
        next
          assume b: "t \<noteq> Done None \<and> plain_step (st c) s'"
          with resolved_update [OF \<open>k < length (tasks c)\<close>, of t] d
          have "resolved ((tasks c)[k := t]) = resolved (tasks c)" by simp
          with assms(3) b counts_plain_step [of "st c" s'] show ?thesis
            unfolding s resolved_inv_def by simp
        qed
      next
        case False
        then have n: "\<forall>x. tasks c ! k \<noteq> AwaitLoadModule x" by blast
        from resume_plain [OF n r] have p: "plain_step (st c) s'" .
        from resume_plain_unresolved [OF n d r] have "t \<noteq> Done None" .
        with resolved_update [OF \<open>k < length (tasks c)\<close>, of t] d
        have "resolved ((tasks c)[k := t]) = resolved (tasks c)" by simp
        with assms(3) counts_plain_step [OF p] show ?thesis
          unfolding s resolved_inv_def by simp
      qed
    qed
  qed
qed

lemma resolved_inv_run:
  assumes "v \<noteq> Node" and "\<forall>i. start_h h i = None"
  shows "resolved_inv (run v h sch start_config)"
proof (rule run_invariant [where P = resolved_inv])
  show "resolved_inv start_config"
    by (simp add: resolved_inv_def start_config_def initial_def instances_created_def)
qed (rule resolved_inv_step [OF assms])

lemma latest_plain: "plain es \<Longrightarrow> latest (tr @ es) = latest tr"
  by (simp add: latest_def plain_filters)

lemma latest_bind:
  "plain es \<Longrightarrow> latest (tr @ es @ [NewInstance (Some i), SetWasm i, Start i]) = InstanceExports i"
  by (simp add: latest_def plain_filters)

lemma latest_inv_step: "latest_inv s \<Longrightarrow> plain_step s s' \<or> bind_step s s' \<Longrightarrow> latest_inv s'"
  unfolding latest_inv_def plain_step_def bind_step_def
  by (auto simp: latest_plain latest_bind)

lemma latest_inv_run: "latest_inv (st (run v h sch start_config))"
proof (rule run_state_invariant [where Q = latest_inv])
  show "latest_inv (st start_config)"
    by (simp add: start_config_def latest_inv_def initial_def latest_def)
qed (rule latest_inv_step)

lemma instances_le_instantiations: "instances_created s \<le> instantiations s"
proof -
  have "length (filter is_instance tr) \<le> length (filter is_instantiation tr)" for tr
  proof (induction tr)
    case Nil
    then show ?case by simp
  next
    case (Cons e tr)
    then show ?case by (cases e rule: is_instance.cases) auto
  qed
  then show ?thesis by (simp add: instances_created_def instantiations_def)
qed

lemma call_work:
  "call v h s = (t, s') \<Longrightarrow>
   resource_reads s' \<le> resource_reads s + 1 \<and>
   compilations s' + (if may_compile t then 1 else 0) \<le> compilations s + 1 \<and>
   instantiations s' = instantiations s \<and> instances_created s' = instances_created s \<and>
   \<not> is_done t \<and> t \<noteq> Done None"
  by (auto simp: call_def split: option.splits if_splits)

lemma resume_work:
  "\<forall>r. t \<noteq> AwaitLoadModule r \<Longrightarrow> resume v h t s = (t', s') \<Longrightarrow>
   resource_reads s' = resource_reads s \<and>
   compilations s' + (if may_compile t' then 1 else 0) \<le>
     compilations s + (if may_compile t then 1 else 0) \<and>
   instantiations s' = instantiations s \<and> instances_created s' = instances_created s \<and>
   (t' = Done None \<longrightarrow> t = Done None) \<and> (is_done t \<longrightarrow> t' = t)"
  by (cases "(v, h, t, s)" rule: resume.cases) (auto split: if_splits)

lemma instantiate_and_start_work:
  "instantiate_and_start h mo s = (r, s') \<Longrightarrow>
   resource_reads s' = resource_reads s \<and> compilations s' = compilations s \<and>
   instantiations s' = instantiations s + 1 \<and>
   instances_created s \<le> instances_created s' \<and>
   (\<forall>i. r = Inr i \<longrightarrow> instances_created s' = instances_created s + 1)"
  using instantiate_and_start_cases [of h mo s] by auto

lemma resume_load_work:
  "resume v h (AwaitLoadModule x) s = (t', s') \<Longrightarrow>
   resource_reads s' = resource_reads s \<and> compilations s' = compilations s \<and>
   instantiations s' = instantiations s + 1 \<and>
   instances_created s \<le> instances_created s' \<and>
   (t' = Done None \<longrightarrow> instances_created s' = instances_created s + 1) \<and>
   is_done t' \<and> \<not> may_compile t'"
proof -
  assume a: "resume v h (AwaitLoadModule x) s = (t', s')"
  obtain r s2 where i: "instantiate_and_start h (if v = ESM then x else mod_cache s) s = (r, s2)"
    by (cases "instantiate_and_start h (if v = ESM then x else mod_cache s) s")
  with a have "s' = s2" and "t' = (case r of Inl e \<Rightarrow> Done (Some e) | Inr i \<Rightarrow> Done None)"
    by (auto split: sum.splits)
  with instantiate_and_start_work [OF i] show ?thesis
    by (auto split: sum.splits)
qed

lemma loadModuleSync_work:
  "loadModuleSync h s = (r, s') \<Longrightarrow>
   resource_reads s' \<le> resource_reads s + 1 \<and> compilations s' \<le> compilations s + 1 \<and>
   instantiations s' = instantiations s \<and> instances_created s' = instances_created s"
  by (auto simp: loadModuleSync_def split: option.splits sum.splits)

lemma wasm_get_work:
  "wasm_get v h s p = (r, s') \<Longrightarrow>
   resource_reads s' \<le> resource_reads s + 1 \<and> compilations s' \<le> compilations s + 1 \<and>
   instantiations s' \<le> instantiations s + 1 \<and> instances_created s \<le> instances_created s'"
proof (cases "v = Node \<and> wasm s = GuardProxy")
  case False
  assume "wasm_get v h s p = (r, s')"
  with False have "s' = s"
    by (auto simp: wasm_get_def wasm_get_node_def split: if_splits exports.splits)
  then show ?thesis by simp
next
  case True
  assume a: "wasm_get v h s p = (r, s')"
  obtain r1 s1 where l: "loadModuleSync h s = (r1, s1)" by (cases "loadModuleSync h s")
  show ?thesis
  proof (cases r1)
    case (Inl e)
    with a l True have "s' = s1"
      by (simp add: wasm_get_def wasm_get_node_def proxy_get_node_def)
    with loadModuleSync_work [OF l] show ?thesis by simp
  next
    case (Inr m)
    obtain r2 s2 where i: "instantiate_and_start h (mod_cache s1) s1 = (r2, s2)"
      by (cases "instantiate_and_start h (mod_cache s1) s1")
    with a l True Inr have "s' = s2"
      by (auto simp: wasm_get_def wasm_get_node_def proxy_get_node_def initInstance_def
               split: sum.splits)
    with loadModuleSync_work [OF l] instantiate_and_start_work [OF i] show ?thesis by simp
  qed
qed

lemma work_inv_Call: "work_inv c \<Longrightarrow> work_inv (step v h Call c)"
proof -
  assume a: "work_inv c"
  obtain t s' where c: "call v h (st c) = (t, s')" by (cases "call v h (st c)")
  from a c call_work [OF c] show ?thesis
    by (auto simp: work_inv_def finished_append resolved_append split: if_splits)
qed

lemma work_inv_Get: "work_inv c \<Longrightarrow> work_inv (step v h (Get p) c)"
proof -
  assume a: "work_inv c"
  obtain r s' where g: "wasm_get v h (st c) p = (r, s')" by (cases "wasm_get v h (st c) p")
  from a g wasm_get_work [OF g] show ?thesis
    by (auto simp: work_inv_def)
qed

lemma work_inv_Resume: "work_inv c \<Longrightarrow> work_inv (step v h (Resume k) c)"
proof (cases "k < length (tasks c)")
  case False
  assume "work_inv c"
  with False show ?thesis by simp
next
  case True
  assume a: "work_inv c"
  obtain t s' where r: "resume v h (tasks c ! k) (st c) = (t, s')"
    by (cases "resume v h (tasks c ! k) (st c)")
  have s: "step v h (Resume k) c = c\<lparr>st := s', tasks := (tasks c)[k := t]\<rparr>"
    using True r by simp
  note m = filter_update_length [OF True, of may_compile t]
  note f = finished_update [OF True, of t]
  note d = resolved_update [OF True, of t]
  show ?thesis
  proof (cases "\<exists>x. tasks c ! k = AwaitLoadModule x")
    case True
    then obtain x where x: "tasks c ! k = AwaitLoadModule x" by blast
    from resume_load_work [OF r [unfolded x]] a m f d x show ?thesis
      unfolding s work_inv_def by (auto split: if_splits)
  next
    case False
    then have n: "\<forall>x. tasks c ! k \<noteq> AwaitLoadModule x" by blast
    from resume_work [OF n r] a m f d show ?thesis
      unfolding s work_inv_def by (auto split: if_splits)
  qed
qed

lemma work_inv_step: "work_inv c \<Longrightarrow> work_inv (step v h a c)"
  by (cases a) (simp_all only: work_inv_Call work_inv_Resume work_inv_Get)

lemma work_inv_run: "work_inv (run v h sch start_config)"
proof (rule run_invariant [where P = work_inv])
  show "work_inv start_config"
    by (simp add: work_inv_def start_config_def initial_def resource_reads_def compilations_def
          instantiations_def finished_def resolved_def)
qed (rule work_inv_step)

lemma length_results_step:
  "length (results (step v h a c)) = length (results c) + (case a of Get p \<Rightarrow> 1 | _ \<Rightarrow> 0)"
  by (cases a) (auto split: prod.splits)

lemma length_results_run:
  "length (results (run v h sch c)) =
     length (results c) + length (filter (\<lambda>a. case a of Get p \<Rightarrow> True | _ \<Rightarrow> False) sch)"
  by (induction sch arbitrary: c) (simp_all add: length_results_step split: action.splits)

lemma no_reads_no_results:
  "\<forall>p. Get p \<notin> set sch \<Longrightarrow> length (results (run v h sch start_config)) = 0"
proof -
  assume a: "\<forall>p. Get p \<notin> set sch"
  have "filter (\<lambda>a. case a of Get p \<Rightarrow> True | _ \<Rightarrow> False) sch = []"
    using a by (auto simp: filter_empty_conv split: action.splits)
  then show ?thesis
    using length_results_run [of v h sch start_config] by (simp add: start_config_def)
qed

lemma all_resolved: "\<forall>t \<in> set ts. t = Done None \<Longrightarrow> resolved ts = length ts"
  by (induction ts) (simp_all add: resolved_def)

text \<open>Without property reads, every call of \<^verbatim>\<open>initAsync\<close> fetches or reads the binary
  module at most once and compiles at most once, however the calls are interleaved.\<close>

lemma work_per_call:
  assumes "\<forall>p. Get p \<notin> set sch"
  shows "resource_reads (st (run v h sch start_config)) \<le> count_list sch Call \<and>
         compilations (st (run v h sch start_config)) \<le> count_list sch Call"
proof -
  let ?c = "run v h sch start_config"
  have "length (tasks ?c) = count_list sch Call"
    using length_tasks_run [of v h sch start_config] by (simp add: start_config_def)
  with work_inv_run [of v h sch] no_reads_no_results [OF assms, of v h] show ?thesis
    by (simp add: work_inv_def)
qed

section \<open>The example executions, evaluated\<close>

lemma two_calls_interleaved_run:
  "st (run CJS (good_host False) two_calls_interleaved start_config) =
     \<lparr>mod_cache = Some 5, wasm = InstanceExports 9,
      trace = [Fetch, Fetch, ArrayBuffer, ArrayBuffer, Compile, Compile,
               NewInstance (Some 6), SetWasm 6, Start 6,
               NewInstance (Some 9), SetWasm 9, Start 9]\<rparr>"
  by code_simp

lemma two_calls_interleaved_tasks:
  "tasks (run CJS (good_host False) two_calls_interleaved start_config) = [Done None, Done None]"
  by code_simp

lemma good_first_call:
  "initAsync Node (good_host False) initial = (Inr (), once_initialized)"
  by code_simp

lemma good_second_call:
  "initAsync Node (good_host False) once_initialized = (Inr (), twice_initialized)"
  by code_simp

lemma reads_around_failed_call_run:
  "run CJS host_404 reads_around_failed_call start_config =
     \<lparr>st = \<lparr>mod_cache = None, wasm = GuardProxy, trace = [Fetch]\<rparr>,
      tasks = [Done (Some (Error (fetch_failed_message host_404)))],
      results = [Inl (Error premature_use_message), Inl (Error premature_use_message),
                 Inl (Error premature_use_message)]\<rparr>"
  by code_simp

lemma first_read_loads:
  "exec Node (good_host False) (GetProp ''start'') initial =
     \<lparr>mod_cache = Some 1, wasm = InstanceExports 2,
      trace = [ReadFileSync, NewModule, NewInstance (Some 2), SetWasm 2, Start 2]\<rparr>"
  by code_simp






lemma unlinkable_load:
  "loadModule ESM unlinkable_host initial =
     (Inr (Some 1), \<lparr>mod_cache = Some 1, wasm = GuardProxy, trace = [Fetch, CompileStreaming]\<rparr>)"
  by code_simp

lemma unlinkable_sync_load:
  "loadModuleSync unlinkable_host initial =
     (Inr None, \<lparr>mod_cache = Some 1, wasm = GuardProxy, trace = [ReadFileSync, NewModule]\<rparr>)"
  by code_simp

section \<open>C1: start-up and instances\<close>

text \<open>
  C1, as stated, fails: two calls of \<^verbatim>\<open>initAsync\<close>, one after the other, on a host where
  everything succeeds construct two instances and invoke start-up twice. The second call
  finds the module cached and goes straight to \<^verbatim>\<open>new WebAssembly.Instance\<close>.
\<close>

theorem startup_invoked_twice:
  "start_invocations
     (snd (initAsync_cjs (good_host True) (snd (initAsync_cjs (good_host True) initial)))) = 2 \<and>
   instances_created
     (snd (initAsync_cjs (good_host True) (snd (initAsync_cjs (good_host True) initial)))) = 2"
  by code_simp

text \<open>
  C1, as amended. Start-up is invoked exactly once for every instance constructed, but
  instances are not singletons: in every variant and every interleaving of \<^verbatim>\<open>initAsync\<close>
  calls and property reads, the number of instances constructed, and with it the number
  of start-up invocations, is at most the number of \<^verbatim>\<open>initAsync\<close> calls, plus one in the
  node variant (the instance the proxy constructs on first use).
\<close>

theorem startup_once_per_instance:
  "start_invocations (st (run v h sch start_config)) =
     instances_created (st (run v h sch start_config)) \<and>
   instances_created (st (run v h sch start_config)) \<le>
     count_list sch Call + (if v = Node then 1 else 0)"
proof -
  let ?c = "run v h sch start_config"
  have "instances_created (st ?c) \<le> finished (tasks ?c) + auto_loaded v (st ?c)"
    using bound_inv_run [of v h sch] by (simp add: bound_inv_def)
  moreover have "finished (tasks ?c) \<le> count_list sch Call"
    using finished_le [of "tasks ?c"] length_tasks_run [of v h sch start_config]
    by (simp add: start_config_def)
  moreover have "auto_loaded v (st ?c) \<le> (if v = Node then 1 else 0)"
    by (simp add: auto_loaded_def)
  ultimately show ?thesis
    using slot_inv_run [of v h sch] by (simp add: slot_inv_def)
qed

theorem startup_once_per_instance_witness:
  "start_invocations (st (run CJS (good_host False) two_calls_interleaved start_config)) =
     instances_created (st (run CJS (good_host False) two_calls_interleaved start_config)) \<and>
   instances_created (st (run CJS (good_host False) two_calls_interleaved start_config)) \<le> 2"
proof -
  have "count_list two_calls_interleaved Call = 2"
    by (simp add: two_calls_interleaved_def)
  with startup_once_per_instance [of CJS "good_host False" two_calls_interleaved]
  show ?thesis by simp
qed

section \<open>C2: two calls of the initialiser\<close>

text \<open>
  C2, as stated, fails. Two calls in sequence on a host where everything succeeds
  instantiate twice. Two calls that overlap, the second issued while the first is
  suspended in its fetch, also fetch twice and compile twice: each finds \<^verbatim>\<open>mod\<close> unset.
\<close>

theorem two_calls_instantiate_twice:
  "instantiations
     (snd (initAsync_cjs (good_host True) (snd (initAsync_cjs (good_host True) initial)))) = 2 \<and>
   tasks (run CJS (good_host False) two_calls_interleaved start_config) = [Done None, Done None] \<and>
   resource_reads (st (run CJS (good_host False) two_calls_interleaved start_config)) = 2 \<and>
   compilations (st (run CJS (good_host False) two_calls_interleaved start_config)) = 2 \<and>
   instantiations (st (run CJS (good_host False) two_calls_interleaved start_config)) = 2"
  by code_simp

text \<open>
  C2, as amended. Only the compiled module is shared between calls of \<^verbatim>\<open>initAsync\<close>;
  every call instantiates for itself.
  \<^item> Two calls made one after the other, in any variant, that start with the module not
    cached and both resolve: exactly one fetch/read and exactly one compile are performed
    in total, but two instantiations; the second call rebinds the slot once more, to the
    exports of its own instance.
  \<^item> Calls interleaved in any way at their suspension points (and no property reads
    meanwhile): each call instantiates at most once, and when all calls have resolved
    there are exactly as many instances as calls.

  In every execution the slot holds the export table of the instance constructed last, so
  that after two calls have completed everyone observes the same table, that of the later
  instance.
\<close>

theorem two_calls_of_initAsync:
  "(mod_cache s = None \<and> initAsync v h s = (Inr (), s1) \<and> initAsync v h s1 = (Inr (), s2) \<longrightarrow>
      resource_reads s2 = resource_reads s + 1 \<and> compilations s2 = compilations s + 1 \<and>
      instantiations s2 = instantiations s + 2 \<and>
      instances_created s2 = instances_created s + 2 \<and>
      (\<exists>i j. wasm s1 = InstanceExports i \<and> wasm s2 = InstanceExports j \<and> i < j)) \<and>
   ((\<forall>p. Get p \<notin> set sch) \<longrightarrow>
      instantiations (st (run v h sch start_config)) \<le> count_list sch Call \<and>
      ((\<forall>t \<in> set (tasks (run v h sch start_config)). t = Done None) \<longrightarrow>
         instantiations (st (run v h sch start_config)) = count_list sch Call \<and>
         instances_created (st (run v h sch start_config)) = count_list sch Call)) \<and>
   wasm (st (run v h sch start_config)) = latest (trace (st (run v h sch start_config)))"
proof (intro conjI impI)
  assume "mod_cache s = None \<and> initAsync v h s = (Inr (), s1) \<and> initAsync v h s1 = (Inr (), s2)"
  then have n: "mod_cache s = None" and 1: "initAsync v h s = (Inr (), s1)"
    and 2: "initAsync v h s1 = (Inr (), s2)" by simp_all
  from initAsync_resolved [OF 1]
  obtain r sa where a: "loadModule v h s = (Inr r, sa)" and s1: "s1 = rebound (fresh sa) sa"
    by blast
  from loadModule_loaded [OF n a] obtain m where m: "mod_cache sa = Some m" by blast
  then have c: "mod_cache s1 = Some m" by (simp add: s1)
  from initAsync_resolved [OF 2] loadModule_cached [OF c, of v h]
  have s2: "s2 = rebound (fresh s1) s1" by simp
  from loadModule_loaded [OF n a] loadModule_quiet [OF a]
  show "resource_reads s2 = resource_reads s + 1" and "compilations s2 = compilations s + 1"
    and "instantiations s2 = instantiations s + 2"
    and "instances_created s2 = instances_created s + 2"
    and "\<exists>i j. wasm s1 = InstanceExports i \<and> wasm s2 = InstanceExports j \<and> i < j"
    by (simp_all add: s1 s2)
next
  let ?c = "run v h sch start_config"
  assume g: "\<forall>p. Get p \<notin> set sch"
  have l: "length (tasks ?c) = count_list sch Call"
    using length_tasks_run [of v h sch start_config] by (simp add: start_config_def)
  from work_inv_run [of v h sch] no_reads_no_results [OF g, of v h] l finished_le [of "tasks ?c"]
  have w: "instantiations (st ?c) \<le> count_list sch Call"
    "resolved (tasks ?c) \<le> instances_created (st ?c)"
    by (simp_all add: work_inv_def)
  show "instantiations (st ?c) \<le> count_list sch Call" by (rule w(1))
  assume "\<forall>t \<in> set (tasks ?c). t = Done None"
  from all_resolved [OF this] l w instances_le_instantiations [of "st ?c"]
  show "instantiations (st ?c) = count_list sch Call"
    and "instances_created (st ?c) = count_list sch Call"
    by simp_all
next
  show "wasm (st (run v h sch start_config)) = latest (trace (st (run v h sch start_config)))"
    using latest_inv_run [of v h sch] by (simp add: latest_inv_def)
qed

theorem two_calls_of_initAsync_witness:
  "initAsync Node (good_host False) initial = (Inr (), once_initialized) \<and>
   initAsync Node (good_host False) once_initialized = (Inr (), twice_initialized) \<and>
   resource_reads twice_initialized = 1 \<and> compilations twice_initialized = 1 \<and>
   instantiations twice_initialized = 2 \<and>
   tasks (run CJS (good_host False) two_calls_interleaved start_config) = [Done None, Done None] \<and>
   instantiations (st (run CJS (good_host False) two_calls_interleaved start_config)) = 2 \<and>
   instances_created (st (run CJS (good_host False) two_calls_interleaved start_config)) = 2"
proof -
  have z: "mod_cache initial = None" "resource_reads initial = 0" "compilations initial = 0"
    "instantiations initial = 0"
    by (simp_all add: initial_def resource_reads_def compilations_def instantiations_def)
  have g: "\<forall>p. Get p \<notin> set two_calls_interleaved" "count_list two_calls_interleaved Call = 2"
    by (simp_all add: two_calls_interleaved_def)
  have t: "\<forall>t \<in> set (tasks (run CJS (good_host False) two_calls_interleaved start_config)).
             t = Done None"
    by (simp add: two_calls_interleaved_tasks)
  from two_calls_of_initAsync
         [of initial Node "good_host False" once_initialized twice_initialized "[]"]
       z good_first_call good_second_call
  have 1: "resource_reads twice_initialized = 1 \<and> compilations twice_initialized = 1 \<and>
           instantiations twice_initialized = 2"
    by simp
  from two_calls_of_initAsync
         [of initial CJS "good_host False" once_initialized twice_initialized two_calls_interleaved]
       g t
  have 2: "instantiations (st (run CJS (good_host False) two_calls_interleaved start_config)) = 2 \<and>
   instances_created (st (run CJS (good_host False) two_calls_interleaved start_config)) = 2"
    by simp
  from 1 2 good_first_call good_second_call two_calls_interleaved_tasks
  show ?thesis by (simp only: simp_thms)
qed

section \<open>C3: use before initialisation\<close>

lemma names_initAsync: "sublist ''initAsync'' premature_use_message"
proof -
  have "premature_use_message =
      ''@matrix-org/matrix-sdk-crypto-wasm was used before it was initialized. Call `'' @
      ''initAsync'' @ ''` first.''"
    by (simp add: premature_use_message_def)
  moreover have "sublist ''initAsync''
      (''@matrix-org/matrix-sdk-crypto-wasm was used before it was initialized. Call `'' @
       ''initAsync'' @ ''` first.'')"
    by (rule sublist_appendI)
  ultimately show ?thesis by (simp only:)
qed

text \<open>
  C3, as stated, fails. The slot is rebound before start-up runs and stays so when
  start-up throws: the call of \<^verbatim>\<open>initAsync\<close> fails, so no initialisation has succeeded,
  and yet a property read made afterwards does not throw the premature-use error; it is
  answered by the exports of the instance whose start-up failed. This holds in both
  fetch-based loaders, for the sequential functions and for the machine alike.
\<close>

theorem read_after_failed_startup_is_answered:
  "fst (initAsync_cjs failing_start_host initial) =
     Inl (HostError OpStart ''RuntimeError: unreachable executed'') \<and>
   wasm_get_fetch (snd (initAsync_cjs failing_start_host initial)) ''free'' =
     Inr (Export 2 ''free'') \<and>
   fst (initAsync_esm failing_start_host initial) =
     Inl (HostError OpStart ''RuntimeError: unreachable executed'') \<and>
   wasm_get_fetch (snd (initAsync_esm failing_start_host initial)) ''free'' =
     Inr (Export 2 ''free'') \<and>
   tasks (run CJS failing_start_host [Call, Resume 0, Resume 0, Get ''free''] start_config) =
     [Done (Some (HostError OpStart ''RuntimeError: unreachable executed''))] \<and>
   results (run CJS failing_start_host [Call, Resume 0, Resume 0, Get ''free''] start_config) =
     [Inr (Export 2 ''free'')]"
  by code_simp

text \<open>
  C3, as amended. In the fetch-based variants, in every interleaving of \<^verbatim>\<open>initAsync\<close>
  calls and property reads, a property read of the slot throws the premature-use error,
  and so has every read made so far,
  \<^item> as long as no instance has been constructed, whatever the host does: before any
    call, while calls are suspended in fetch or compile, after calls that failed in
    fetch, compile or instantiation;
  \<^item> on a host whose start-up export does not throw, as long as no call of
    \<^verbatim>\<open>initAsync\<close> has resolved.

  The message of that error names \<^verbatim>\<open>initAsync\<close>.
\<close>

theorem premature_use_error_before_initialization:
  assumes "v = CJS \<or> v = ESM"
    and "instances_created (st (run v h sch start_config)) = 0 \<or>
         (\<forall>i. start_h h i = None) \<and> (\<forall>t \<in> set (tasks (run v h sch start_config)). t \<noteq> Done None)"
  shows "wasm_get v h (st (run v h sch start_config)) p =
           (Inl (Error premature_use_message), st (run v h sch start_config)) \<and>
         (\<forall>r \<in> set (results (run v h sch start_config)). r = Inl (Error premature_use_message)) \<and>
         sublist ''initAsync'' premature_use_message"
proof -
  from assms(1) have v: "v \<noteq> Node" by auto
  have "instances_created (st (run v h sch start_config)) = 0"
    using assms(2)
  proof
    assume "(\<forall>i. start_h h i = None) \<and> (\<forall>t \<in> set (tasks (run v h sch start_config)). t \<noteq> Done None)"
    with resolved_inv_run [OF v, of h sch] resolved_0 [of "tasks (run v h sch start_config)"]
    show ?thesis by (simp add: resolved_inv_def)
  qed
  with reads_inv_run [OF v, of h sch]
  have "wasm (st (run v h sch start_config)) = GuardProxy"
    and "list_all (\<lambda>r. r = Inl (Error premature_use_message)) (results (run v h sch start_config))"
    by (simp_all add: reads_inv_def slot_inv_def)
  then show ?thesis
    using v by (simp add: wasm_get_fetch_variant wasm_get_fetch_def names_initAsync list_all_iff)
qed

theorem premature_use_error_before_initialization_witness:
  "tasks (run CJS host_404 reads_around_failed_call start_config) =
     [Done (Some (Error (fetch_failed_message host_404)))] \<and>
   wasm_get CJS host_404 (st (run CJS host_404 reads_around_failed_call start_config)) ''free'' =
     (Inl (Error premature_use_message),
      st (run CJS host_404 reads_around_failed_call start_config)) \<and>
   length (results (run CJS host_404 reads_around_failed_call start_config)) = 3"
proof -
  have s: "\<forall>i. start_h host_404 i = None"
    by (simp add: host_404_def good_host_def)
  have t: "tasks (run CJS host_404 reads_around_failed_call start_config) =
     [Done (Some (Error (fetch_failed_message host_404)))]"
    by (simp add: reads_around_failed_call_run)
  have l: "length (results (run CJS host_404 reads_around_failed_call start_config)) = 3"
    by (simp add: reads_around_failed_call_run)
  from t have "\<forall>t \<in> set (tasks (run CJS host_404 reads_around_failed_call start_config)). t \<noteq> Done None"
    by simp
  with premature_use_error_before_initialization
         [of CJS host_404 reads_around_failed_call "''free''"] s t l
  show ?thesis by blast
qed

section \<open>C4: a failed load is not cached\<close>



section \<open>C5: a response that is not ok\<close>

lemma url_in_message: "sublist (moduleUrl h) (fetch_failed_message h)"
  unfolding fetch_failed_message_def by (rule sublist_append_leftI)

lemma loadModule_streaming:
  assumes "v = CJS \<or> v = ESM" and "mod_cache s = None" and "compileStreaming_is_function h"
  shows "trace (snd (loadModule v h s)) = trace s @ [Fetch, CompileStreaming] \<and>
         (\<forall>msg. compileStreaming_h h (fetch_h h (calls Fetch s)) = Some msg \<longrightarrow>
            loadModule v h s =
              (Inl (HostError OpCompileStreaming msg), log [Fetch, CompileStreaming] s))"
  using assms
  by (auto simp: loadModule_def loadModule_cjs_def loadModule_esm_def split: option.splits)

lemma loadModule_buffered_not_ok:
  assumes "v = CJS \<or> v = ESM" and "mod_cache s = None" and "\<not> compileStreaming_is_function h"
    and "fetch_h h (calls Fetch s) = Inr resp" and "\<not> ok resp"
  shows "loadModule v h s = (Inl (Error (fetch_failed_message h)), log [Fetch] s)"
  using assms
  by (auto simp: loadModule_def loadModule_cjs_def loadModule_esm_def)

lemma loadModule_buffered:
  assumes "v = CJS \<or> v = ESM" and "mod_cache s = None" and "\<not> compileStreaming_is_function h"
  shows "trace (snd (loadModule v h s)) \<in>
           {trace s @ [Fetch], trace s @ [Fetch, ArrayBuffer],
            trace s @ [Fetch, ArrayBuffer, Compile]}"
  using assms
  by (auto simp: loadModule_def loadModule_cjs_def loadModule_esm_def
           split: option.splits sum.splits)

text \<open>
  C5, as stated, fails on the streaming path: the server answers 404,
  \<^verbatim>\<open>compileStreaming\<close> rejects with its own message, and that message, which is what
  \<^verbatim>\<open>initAsync\<close> rejects with, does not include the module URL.
\<close>

theorem streaming_rejection_lacks_url:
  "fetch_h streaming_404 0 = Inr response_404 \<and> \<not> ok response_404 \<and>
   fst (initAsync_cjs streaming_404 initial) =
     Inl (HostError OpCompileStreaming ''TypeError: HTTP status code is not ok'') \<and>
   fst (initAsync_esm streaming_404 initial) =
     Inl (HostError OpCompileStreaming ''TypeError: HTTP status code is not ok'') \<and>
   \<not> sublist (moduleUrl streaming_404) ''TypeError: HTTP status code is not ok''"
  by code_simp

text \<open>
  C5, as amended. In the fetch-based variants, when the module is not cached and the
  response has a non-success status: on the buffered path (the host has no
  \<^verbatim>\<open>compileStreaming\<close>) \<^verbatim>\<open>initAsync\<close> rejects with the loader's own error, whose message
  includes the module URL; on the streaming path the loader does not look at the status,
  and \<^verbatim>\<open>initAsync\<close> rejects with whatever \<^verbatim>\<open>compileStreaming\<close> rejects with, unchanged.
\<close>

theorem non_success_status_rejects:
  assumes "v = CJS \<or> v = ESM" and "mod_cache s = None"
    and "fetch_h h (calls Fetch s) = Inr resp" and "\<not> ok resp"
  shows "(\<not> compileStreaming_is_function h \<longrightarrow>
            initAsync v h s = (Inl (Error (fetch_failed_message h)), log [Fetch] s) \<and>
            sublist (moduleUrl h) (fetch_failed_message h)) \<and>
         (compileStreaming_is_function h \<longrightarrow>
            (\<forall>msg. compileStreaming_h h (Inr resp) = Some msg \<longrightarrow>
               initAsync v h s =
                 (Inl (HostError OpCompileStreaming msg), log [Fetch, CompileStreaming] s)))"
proof (intro conjI impI allI)
  assume b: "\<not> compileStreaming_is_function h"
  from loadModule_buffered_not_ok [OF assms(1,2) b assms(3,4)]
  show "initAsync v h s = (Inl (Error (fetch_failed_message h)), log [Fetch] s)"
    by (simp add: initAsync_unfold)
  show "sublist (moduleUrl h) (fetch_failed_message h)" by (rule url_in_message)
next
  fix msg
  assume c: "compileStreaming_is_function h" and r: "compileStreaming_h h (Inr resp) = Some msg"
  from loadModule_streaming [OF assms(1,2) c] r assms(3)
  show "initAsync v h s =
          (Inl (HostError OpCompileStreaming msg), log [Fetch, CompileStreaming] s)"
    by (simp add: initAsync_unfold)
qed

theorem non_success_status_rejects_witness:
  "initAsync CJS host_404 initial = (Inl (Error (fetch_failed_message host_404)), log [Fetch] initial) \<and>
   sublist (moduleUrl host_404) (fetch_failed_message host_404) \<and>
   initAsync ESM streaming_404 initial =
     (Inl (HostError OpCompileStreaming ''TypeError: HTTP status code is not ok''),
      log [Fetch, CompileStreaming] initial)"
proof -
  have a: "mod_cache initial = None" "calls Fetch initial = 0" "\<not> ok response_404"
    by (simp_all add: initial_def calls_def response_404_def)
  have b: "fetch_h host_404 0 = Inr response_404" "\<not> compileStreaming_is_function host_404"
    by (simp_all add: host_404_def good_host_def)
  have c: "fetch_h streaming_404 0 = Inr response_404" "compileStreaming_is_function streaming_404"
    "compileStreaming_h streaming_404 (Inr response_404) =
       Some ''TypeError: HTTP status code is not ok''"
    by (simp_all add: streaming_404_def good_host_def response_404_def)
  from non_success_status_rejects [of CJS initial host_404 response_404] a b
  have 1: "initAsync CJS host_404 initial =
             (Inl (Error (fetch_failed_message host_404)), log [Fetch] initial) \<and>
           sublist (moduleUrl host_404) (fetch_failed_message host_404)"
    by simp
  from non_success_status_rejects [of ESM initial streaming_404 response_404] a c
  have 2: "initAsync ESM streaming_404 initial =
     (Inl (HostError OpCompileStreaming ''TypeError: HTTP status code is not ok''),
      log [Fetch, CompileStreaming] initial)"
    by simp
  from 1 2 show ?thesis by (simp only: simp_thms)
qed

section \<open>C6: the buffered path\<close>

text \<open>
  C6, as stated, fails: the streaming compile rejects (wrong content type), the buffered
  compile of the same response would have succeeded, as it does on the same host without
  \<^verbatim>\<open>compileStreaming\<close>, and \<^verbatim>\<open>initAsync\<close> fails all the same, having made no buffered
  attempt.
\<close>

theorem no_fallback_after_streaming_failure:
  "initAsync_cjs (wrong_mime_host True) initial =
     (Inl (HostError OpCompileStreaming ''TypeError: Incorrect response MIME type''),
      \<lparr>mod_cache = None, wasm = GuardProxy, trace = [Fetch, CompileStreaming]\<rparr>) \<and>
   initAsync_esm (wrong_mime_host True) initial =
     (Inl (HostError OpCompileStreaming ''TypeError: Incorrect response MIME type''),
      \<lparr>mod_cache = None, wasm = GuardProxy, trace = [Fetch, CompileStreaming]\<rparr>) \<and>
   fst (initAsync_cjs (wrong_mime_host False) initial) = Inr () \<and>
   fst (initAsync_esm (wrong_mime_host False) initial) = Inr ()"
  by code_simp

text \<open>
  C6, as amended. In the fetch-based variants, when the module is not cached, the
  buffered fetch-then-compile path runs exactly when the host lacks streaming
  compilation. When the host has \<^verbatim>\<open>compileStreaming\<close>, the loader fetches once and calls
  it, and nothing else; if it rejects, \<^verbatim>\<open>initAsync\<close> rejects with that error and no
  buffered attempt is made.
\<close>

theorem buffered_path_only_without_streaming:
  assumes "v = CJS \<or> v = ESM" and "mod_cache s = None"
  shows "(compileStreaming_is_function h \<longrightarrow>
            trace (snd (loadModule v h s)) = trace s @ [Fetch, CompileStreaming] \<and>
            (\<forall>msg. compileStreaming_h h (fetch_h h (calls Fetch s)) = Some msg \<longrightarrow>
               initAsync v h s =
                 (Inl (HostError OpCompileStreaming msg), log [Fetch, CompileStreaming] s))) \<and>
         (\<not> compileStreaming_is_function h \<longrightarrow>
            trace (snd (loadModule v h s)) \<in>
              {trace s @ [Fetch], trace s @ [Fetch, ArrayBuffer],
               trace s @ [Fetch, ArrayBuffer, Compile]})"
proof (intro conjI impI allI)
  assume c: "compileStreaming_is_function h"
  from loadModule_streaming [OF assms c]
  show "trace (snd (loadModule v h s)) = trace s @ [Fetch, CompileStreaming]" by simp
  fix msg
  assume "compileStreaming_h h (fetch_h h (calls Fetch s)) = Some msg"
  with loadModule_streaming [OF assms c]
  show "initAsync v h s =
          (Inl (HostError OpCompileStreaming msg), log [Fetch, CompileStreaming] s)"
    by (simp add: initAsync_unfold)
next
  assume "\<not> compileStreaming_is_function h"
  from loadModule_buffered [OF assms this]
  show "trace (snd (loadModule v h s)) \<in>
              {trace s @ [Fetch], trace s @ [Fetch, ArrayBuffer],
               trace s @ [Fetch, ArrayBuffer, Compile]}" .
qed

theorem buffered_path_only_without_streaming_witness:
  "trace (snd (loadModule CJS (wrong_mime_host True) initial)) = [Fetch, CompileStreaming] \<and>
   initAsync CJS (wrong_mime_host True) initial =
     (Inl (HostError OpCompileStreaming ''TypeError: Incorrect response MIME type''),
      log [Fetch, CompileStreaming] initial) \<and>
   trace (snd (loadModule CJS (wrong_mime_host False) initial)) \<in>
     {[Fetch], [Fetch, ArrayBuffer], [Fetch, ArrayBuffer, Compile]}"
proof -
  have a: "mod_cache initial = None" "trace initial = []"
    by (simp_all add: initial_def)
  have b: "compileStreaming_is_function (wrong_mime_host True)"
    "\<not> compileStreaming_is_function (wrong_mime_host False)"
    "compileStreaming_h (wrong_mime_host True) r =
       Some ''TypeError: Incorrect response MIME type''" for r
    by (simp_all add: wrong_mime_host_def good_host_def)
  from buffered_path_only_without_streaming [of CJS initial "wrong_mime_host True"] a b
  have 1: "trace (snd (loadModule CJS (wrong_mime_host True) initial)) = [Fetch, CompileStreaming] \<and>
   initAsync CJS (wrong_mime_host True) initial =
     (Inl (HostError OpCompileStreaming ''TypeError: Incorrect response MIME type''),
      log [Fetch, CompileStreaming] initial)"
    by simp
  from buffered_path_only_without_streaming [of CJS initial "wrong_mime_host False"] a b
  have 2: "trace (snd (loadModule CJS (wrong_mime_host False) initial)) \<in>
     {[Fetch], [Fetch, ArrayBuffer], [Fetch, ArrayBuffer, Compile]}"
    by simp
  from 1 2 show ?thesis by (simp only: simp_thms)
qed

section \<open>C7: auto-loading in the node variant\<close>

lemma reads_after_binding:
  "wasm (st c) = InstanceExports i \<Longrightarrow>
   run Node h (map Get ps) c = c\<lparr>results := results c @ map (\<lambda>p. Inr (Export i p)) ps\<rparr>"
proof (induction ps arbitrary: c)
  case Nil
  then show ?case by simp
next
  case (Cons p ps)
  have s: "step Node h (Get p) c = c\<lparr>results := results c @ [Inr (Export i p)]\<rparr>"
    using Cons.prems by (simp add: wasm_get_def wasm_get_node_def)
  have "wasm (st (c\<lparr>results := results c @ [Inr (Export i p)]\<rparr>)) = InstanceExports i"
    using Cons.prems by simp
  from Cons.IH [OF this]
  have "run Node h (map Get ps) (step Node h (Get p) c) =
          c\<lparr>results := results c @ map (\<lambda>p. Inr (Export i p)) (p # ps)\<rparr>"
    unfolding s by simp
  then show ?case by (simp only: list.map run.simps)
qed

lemma first_read_auto_loads:
  assumes "readFileSync_h h 0 = Inr bs" and "Module_h h bs = None" and "links h"
  shows "wasm_get Node h initial p =
           (Inr (Export 2 p),
            \<lparr>mod_cache = Some 1, wasm = InstanceExports 2,
             trace = [ReadFileSync, NewModule, NewInstance (Some 2), SetWasm 2, Start 2]\<rparr>)"
proof -
  have l: "loadModuleSync h initial =
             (Inr None, \<lparr>mod_cache = Some 1, wasm = GuardProxy, trace = [ReadFileSync, NewModule]\<rparr>)"
    using assms(1,2) by (simp add: loadModuleSync_def initial_def calls_def log_def fresh_def)
  have "wasm_get_node h initial p =
          (Inr (Export (fresh \<lparr>mod_cache = Some 1, wasm = GuardProxy,
                               trace = [ReadFileSync, NewModule]\<rparr>) p),
           rebound (fresh \<lparr>mod_cache = Some 1, wasm = GuardProxy,
                            trace = [ReadFileSync, NewModule]\<rparr>)
             \<lparr>mod_cache = Some 1, wasm = GuardProxy, trace = [ReadFileSync, NewModule]\<rparr>)"
    by (rule wasm_get_node_after_load [OF l _ assms(3)]) (simp_all add: initial_def)
  then show ?thesis by (simp add: wasm_get_def fresh_def rebound_def log_def)
qed

text \<open>
  C7. In the node variant, for domain calls alone (no explicit \<^verbatim>\<open>initAsync\<close>): whatever the
  host does, any number of property reads constructs at most one instance and invokes
  start-up at most once. And when the file can be read, compiles and links, a sequence
  of one or more reads triggers exactly one read of the file, one compilation, one
  instantiation and one start-up, and every read returns the property of the export
  table of that single instance.
\<close>

theorem auto_load_once:
  "instances_created (st (run Node h (map Get ps) start_config)) \<le> 1 \<and>
   start_invocations (st (run Node h (map Get ps) start_config)) \<le> 1 \<and>
   (readFileSync_h h 0 = Inr bs \<and> Module_h h bs = None \<and> links h \<and> ps \<noteq> [] \<longrightarrow>
      resource_reads (st (run Node h (map Get ps) start_config)) = 1 \<and>
      compilations (st (run Node h (map Get ps) start_config)) = 1 \<and>
      instantiations (st (run Node h (map Get ps) start_config)) = 1 \<and>
      start_invocations (st (run Node h (map Get ps) start_config)) = 1 \<and>
      wasm (st (run Node h (map Get ps) start_config)) = InstanceExports 2 \<and>
      results (run Node h (map Get ps) start_config) = map (\<lambda>p. Inr (Export 2 p)) ps)"
proof -
  let ?c = "run Node h (map Get ps) start_config"
  have n: "count_list (map Get ps) Call = 0"
    by (induction ps) simp_all
  have "length (tasks ?c) = 0"
    using length_tasks_run [of Node h "map Get ps" start_config] n
    by (simp add: start_config_def)
  then have "finished (tasks ?c) = 0" by (simp add: finished_def)
  with bound_inv_run [of Node h "map Get ps"] have "instances_created (st ?c) \<le> 1"
    by (simp add: bound_inv_def auto_loaded_def split: if_splits)
  moreover from slot_inv_run [of Node h "map Get ps"]
  have "start_invocations (st ?c) = instances_created (st ?c)" by (simp add: slot_inv_def)
  moreover have "resource_reads (st ?c) = 1 \<and> compilations (st ?c) = 1 \<and> instantiations (st ?c) = 1 \<and>
      start_invocations (st ?c) = 1 \<and> wasm (st ?c) = InstanceExports 2 \<and>
      results ?c = map (\<lambda>p. Inr (Export 2 p)) ps"
    if h: "readFileSync_h h 0 = Inr bs" "Module_h h bs = None" "links h" and ps: "ps \<noteq> []"
  proof -
    from ps obtain p qs where pq: "ps = p # qs" by (cases ps) auto
    let ?s = "\<lparr>mod_cache = Some 1, wasm = InstanceExports 2,
               trace = [ReadFileSync, NewModule, NewInstance (Some 2), SetWasm 2, Start 2]\<rparr>"
    let ?d = "\<lparr>st = ?s, tasks = [], results = [Inr (Export 2 p)]\<rparr>"
    have "st start_config = initial" "tasks start_config = []" "results start_config = []"
      by (simp_all add: start_config_def)
    with first_read_auto_loads [OF h, of p]
    have 1: "step Node h (Get p) start_config = ?d"
      by (simp add: start_config_def)
    have "run Node h (map Get qs) ?d = ?d\<lparr>results := results ?d @ map (\<lambda>p. Inr (Export 2 p)) qs\<rparr>"
      by (rule reads_after_binding) simp
    then have "run Node h (map Get qs) (step Node h (Get p) start_config) =
                 ?d\<lparr>results := results ?d @ map (\<lambda>p. Inr (Export 2 p)) qs\<rparr>"
      unfolding 1 .
    then have "?c = ?d\<lparr>results := results ?d @ map (\<lambda>p. Inr (Export 2 p)) qs\<rparr>"
      unfolding pq by (simp only: list.map run.simps)
    then show ?thesis
      by (simp add: pq resource_reads_def compilations_def instantiations_def start_invocations_def)
  qed
  ultimately show ?thesis by simp
qed

theorem auto_load_once_witness:
  "resource_reads (st (run Node (good_host False) (map Get three_reads) start_config)) = 1 \<and>
   compilations (st (run Node (good_host False) (map Get three_reads) start_config)) = 1 \<and>
   instantiations (st (run Node (good_host False) (map Get three_reads) start_config)) = 1 \<and>
   results (run Node (good_host False) (map Get three_reads) start_config) =
     [Inr (Export 2 ''olmmachine_new''), Inr (Export 2 ''__wbindgen_malloc''),
      Inr (Export 2 ''olmmachine_userId'')]"
proof -
  have h: "readFileSync_h (good_host False) 0 = Inr wasm_bytes"
    "Module_h (good_host False) wasm_bytes = None" "links (good_host False)"
    by (simp_all add: good_host_def links_def)
  have n: "three_reads \<noteq> []"
    "map (\<lambda>p. Inr (Export 2 p)) three_reads =
       [Inr (Export 2 ''olmmachine_new''), Inr (Export 2 ''__wbindgen_malloc''),
        Inr (Export 2 ''olmmachine_userId'')]"
    by (simp_all add: three_reads_def)
  from auto_load_once [of "good_host False" three_reads wasm_bytes] h n
  show ?thesis by simp
qed

section \<open>C8: order of construction, rebinding and start-up\<close>

text \<open>
  C8. In every variant and in every interleaving of \<^verbatim>\<open>initAsync\<close> calls and property
  reads, the trace of host operations consists of complete blocks: the construction of
  instance \<open>i\<close> is immediately followed by the rebinding of the slot to the exports of
  \<open>i\<close> and that by the invocation of start-up of \<open>i\<close>, and rebinding and start-up occur
  nowhere else (\<open>init_atomic\<close>). So nothing, in particular no suspension point and no
  property read, lies between the three steps; and whenever other code can run, a slot
  bound to the exports of \<open>i\<close> belongs to an instance whose construction has completed
  and whose start-up has been invoked.
\<close>

theorem rebinding_between_construction_and_startup:
  "init_atomic (trace (st (run v h sch start_config))) \<and>
   (\<forall>i. wasm (st (run v h sch start_config)) = InstanceExports i \<longrightarrow>
      NewInstance (Some i) \<in> set (trace (st (run v h sch start_config))) \<and>
      Start i \<in> set (trace (st (run v h sch start_config))))"
  using order_inv_run [of v h sch] unfolding order_inv_def .

theorem rebinding_between_construction_and_startup_witness:
  "wasm (st (run CJS (good_host False) two_calls_interleaved start_config)) = InstanceExports 9 \<and>
   init_atomic (trace (st (run CJS (good_host False) two_calls_interleaved start_config))) \<and>
   NewInstance (Some 9) \<in> set (trace (st (run CJS (good_host False) two_calls_interleaved start_config))) \<and>
   Start 9 \<in> set (trace (st (run CJS (good_host False) two_calls_interleaved start_config)))"
proof -
  have w: "wasm (st (run CJS (good_host False) two_calls_interleaved start_config)) = InstanceExports 9"
    by (simp add: two_calls_interleaved_run)
  with rebinding_between_construction_and_startup
         [of CJS "good_host False" two_calls_interleaved]
  show ?thesis by blast
qed

section \<open>C9: linkage errors\<close>

text \<open>
  C9. If the constructor \<^verbatim>\<open>new WebAssembly.Instance\<close> throws (a linkage error), the call that
  attempted it, \<^verbatim>\<open>initAsync\<close> in any variant or the auto-loading read of the node variant,
  fails with that very error after this one attempt: the constructor has been called
  once, no start-up has been invoked, and the slot holds what it held before the call.
\<close>

theorem link_error_is_propagated:
  "(loadModule v h s = (Inr r, s1) \<and> mod_cache s1 = Some m \<and>
    Instance_h h (fresh s1) m = Some msg \<longrightarrow>
      initAsync v h s = (Inl (HostError OpInstance msg), log [NewInstance None] s1) \<and>
      wasm (snd (initAsync v h s)) = wasm s \<and>
      instantiations (snd (initAsync v h s)) = instantiations s + 1 \<and>
      instances_created (snd (initAsync v h s)) = instances_created s \<and>
      start_invocations (snd (initAsync v h s)) = start_invocations s) \<and>
   (wasm s = GuardProxy \<and> loadModuleSync h s = (Inr r, s1) \<and> mod_cache s1 = Some m \<and>
    Instance_h h (fresh s1) m = Some msg \<longrightarrow>
      wasm_get_node h s p = (Inl (HostError OpInstance msg), log [NewInstance None] s1) \<and>
      wasm (snd (wasm_get_node h s p)) = GuardProxy \<and>
      instantiations (snd (wasm_get_node h s p)) = instantiations s + 1 \<and>
      instances_created (snd (wasm_get_node h s p)) = instances_created s \<and>
      start_invocations (snd (wasm_get_node h s p)) = start_invocations s)"
proof (intro conjI impI)
  assume "loadModule v h s = (Inr r, s1) \<and> mod_cache s1 = Some m \<and>
    Instance_h h (fresh s1) m = Some msg"
  then have l: "loadModule v h s = (Inr r, s1)" and c: "mod_cache s1 = Some m"
    and i: "Instance_h h (fresh s1) m = Some msg" by simp_all
  from loadModule_quiet [OF l] c have a: "(if v = ESM then r else mod_cache s1) = Some m"
    by auto
  with l instantiate_and_start_link_error [OF i]
  have e: "initAsync v h s = (Inl (HostError OpInstance msg), log [NewInstance None] s1)"
    by (simp add: initAsync_unfold)
  show "initAsync v h s = (Inl (HostError OpInstance msg), log [NewInstance None] s1)"
    by (rule e)
  show "wasm (snd (initAsync v h s)) = wasm s"
    using loadModule_quiet [OF l] by (simp add: e)
  show "instantiations (snd (initAsync v h s)) = instantiations s + 1"
    using loadModule_quiet [OF l] by (simp add: e)
  show "instances_created (snd (initAsync v h s)) = instances_created s"
    using loadModule_quiet [OF l] by (simp add: e)
  show "start_invocations (snd (initAsync v h s)) = start_invocations s"
    using loadModule_quiet [OF l] by (simp add: e)
next
  assume "wasm s = GuardProxy \<and> loadModuleSync h s = (Inr r, s1) \<and> mod_cache s1 = Some m \<and>
    Instance_h h (fresh s1) m = Some msg"
  then have g: "wasm s = GuardProxy" and l: "loadModuleSync h s = (Inr r, s1)"
    and c: "mod_cache s1 = Some m" and i: "Instance_h h (fresh s1) m = Some msg" by simp_all
  from g l c instantiate_and_start_link_error [OF i]
  have e: "wasm_get_node h s p = (Inl (HostError OpInstance msg), log [NewInstance None] s1)"
    by (simp add: wasm_get_node_def proxy_get_node_def initInstance_def)
  show "wasm_get_node h s p = (Inl (HostError OpInstance msg), log [NewInstance None] s1)"
    by (rule e)
  show "wasm (snd (wasm_get_node h s p)) = GuardProxy"
    using loadModuleSync_quiet [OF l] g by (simp add: e)
  show "instantiations (snd (wasm_get_node h s p)) = instantiations s + 1"
    using loadModuleSync_quiet [OF l] by (simp add: e)
  show "instances_created (snd (wasm_get_node h s p)) = instances_created s"
    using loadModuleSync_quiet [OF l] by (simp add: e)
  show "start_invocations (snd (wasm_get_node h s p)) = start_invocations s"
    using loadModuleSync_quiet [OF l] by (simp add: e)
qed

theorem link_error_is_propagated_witness:
  "fst (initAsync ESM unlinkable_host initial) =
     Inl (HostError OpInstance ''LinkError: import object field is not a Function'') \<and>
   wasm (snd (initAsync ESM unlinkable_host initial)) = GuardProxy \<and>
   instantiations (snd (initAsync ESM unlinkable_host initial)) = 1 \<and>
   start_invocations (snd (initAsync ESM unlinkable_host initial)) = 0 \<and>
   fst (wasm_get_node unlinkable_host initial ''a'') =
     Inl (HostError OpInstance ''LinkError: import object field is not a Function'') \<and>
   wasm (snd (wasm_get_node unlinkable_host initial ''a'')) = GuardProxy"
proof -
  have i: "Instance_h unlinkable_host k 1 =
             Some ''LinkError: import object field is not a Function''" for k
    by (simp add: unlinkable_host_def)
  have z: "wasm initial = GuardProxy" "instantiations initial = 0" "start_invocations initial = 0"
    by (simp_all add: initial_def instantiations_def start_invocations_def)
  from link_error_is_propagated
         [of ESM unlinkable_host initial "Some 1"
             "\<lparr>mod_cache = Some 1, wasm = GuardProxy, trace = [Fetch, CompileStreaming]\<rparr>"
             1 "''LinkError: import object field is not a Function''" "''a''"]
       unlinkable_load i z
  have 1: "fst (initAsync ESM unlinkable_host initial) =
             Inl (HostError OpInstance ''LinkError: import object field is not a Function'') \<and>
           wasm (snd (initAsync ESM unlinkable_host initial)) = GuardProxy \<and>
           instantiations (snd (initAsync ESM unlinkable_host initial)) = 1 \<and>
           start_invocations (snd (initAsync ESM unlinkable_host initial)) = 0"
    by (simp add: instantiations_def start_invocations_def)
  from link_error_is_propagated
         [of ESM unlinkable_host initial None
             "\<lparr>mod_cache = Some 1, wasm = GuardProxy, trace = [ReadFileSync, NewModule]\<rparr>"
             1 "''LinkError: import object field is not a Function''" "''a''"]
       unlinkable_sync_load i z
  have 2: "fst (wasm_get_node unlinkable_host initial ''a'') =
             Inl (HostError OpInstance ''LinkError: import object field is not a Function'') \<and>
           wasm (snd (wasm_get_node unlinkable_host initial ''a'')) = GuardProxy"
    by (simp add: instantiations_def start_invocations_def)
  from 1 2 show ?thesis by (simp only: simp_thms)
qed

section \<open>C10: the module cache is written once\<close>

lemma initAsync_kept:
  assumes "mod_cache s = Some m"
  shows "cache_kept m s (snd (initAsync v h s))"
proof -
  obtain r s' where i: "instantiate_and_start h (Some m) s = (r, s')"
    by (cases "instantiate_and_start h (Some m) s")
  with assms have "snd (initAsync v h s) = s'"
    by (simp add: initAsync_unfold loadModule_cached split: sum.splits)
  with instantiate_and_start_kept [OF i] assms show ?thesis by (simp add: cache_kept_def)
qed

lemma wasm_get_kept:
  assumes "mod_cache s = Some m"
  shows "cache_kept m s (snd (wasm_get v h s p))"
proof (cases "v = Node \<and> wasm s = GuardProxy")
  case False
  then have "snd (wasm_get v h s p) = s"
    by (auto simp: wasm_get_def wasm_get_node_def split: exports.splits)
  with assms show ?thesis by (simp add: cache_kept_def)
next
  case True
  obtain r s' where i: "instantiate_and_start h (Some m) s = (r, s')"
    by (cases "instantiate_and_start h (Some m) s")
  with assms True have "snd (wasm_get v h s p) = s'"
    by (simp add: wasm_get_def wasm_get_node_def proxy_get_node_def initInstance_def
          loadModuleSync_cached split: sum.splits)
  with instantiate_and_start_kept [OF i] assms show ?thesis by (simp add: cache_kept_def)
qed

lemma exec_kept: "mod_cache s = Some m \<Longrightarrow> cache_kept m s (exec v h x s)"
  by (cases x) (simp_all add: initAsync_kept wasm_get_kept)

lemma exec_all_kept: "mod_cache s = Some m \<Longrightarrow> cache_kept m s (exec_all v h xs s)"
proof (induction xs arbitrary: s)
  case Nil
  then show ?case by (simp add: cache_kept_def)
next
  case (Cons x xs)
  from exec_kept [OF Cons.prems, of v h x]
  have k: "cache_kept m s (exec v h x s)" .
  then have "mod_cache (exec v h x s) = Some m" by (simp add: cache_kept_def)
  from Cons.IH [OF this] k show ?case by (simp add: cache_kept_def)
qed

text \<open>
  C10. Once \<^verbatim>\<open>mod\<close> holds a module, every loader of every variant returns at once with
  the state untouched: \<^verbatim>\<open>loadModule\<close> of index.js, of its ESM twin and of node.js, and
  \<^verbatim>\<open>loadModuleSync\<close>. So in any sequential execution from there, of \<^verbatim>\<open>initAsync\<close> calls and
  property reads in any order (in the node variant: mixing the auto-loading read with
  \<^verbatim>\<open>initAsync\<close>), \<^verbatim>\<open>mod\<close> keeps that module and nothing is read or compiled again.
\<close>

theorem mod_is_write_once:
  assumes "mod_cache s = Some m"
  shows "loadModule_cjs h s = (Inr (Some m), s) \<and>
         loadModule_esm h s = (Inr m, s) \<and>
         loadModule_node h s = (Inr (Some m), s) \<and>
         loadModuleSync h s = (Inr (Some m), s) \<and>
         mod_cache (exec_all v h xs s) = Some m \<and>
         compilations (exec_all v h xs s) = compilations s \<and>
         resource_reads (exec_all v h xs s) = resource_reads s"
  using assms exec_all_kept [OF assms, of v h xs]
  by (simp add: loadModule_cjs_def loadModule_esm_def loadModule_node_def loadModuleSync_def
        cache_kept_def)

theorem mod_is_write_once_witness:
  "mod_cache (exec Node (good_host False) (GetProp ''start'') initial) = Some 1 \<and>
   mod_cache (exec_all Node (good_host False) mixed_use
                (exec Node (good_host False) (GetProp ''start'') initial)) = Some 1 \<and>
   compilations (exec_all Node (good_host False) mixed_use
                (exec Node (good_host False) (GetProp ''start'') initial)) = 1"
proof -
  have m: "mod_cache (exec Node (good_host False) (GetProp ''start'') initial) = Some 1"
    and c: "compilations (exec Node (good_host False) (GetProp ''start'') initial) = 1"
    unfolding first_read_loads by (simp_all add: compilations_def)
  from mod_is_write_once [OF m, of "good_host False" Node mixed_use] m c
  show ?thesis by simp
qed

end
